theory Spec2Isabelle
  imports Complex_Main "HOL-Library.Word"
begin

section \<open>The audio engine of Aetherloops (src/services/audioEngine.ts)\<close>

text \<open>
  The engine drives a Web Audio graph. The embedding keeps the graph as an explicit store:
  nodes are addresses, connections are a list of edges, and every AudioParam is the log of
  the calls the code made on it (assignment of \<open>.value\<close>, \<open>setValueAtTime\<close>,
  \<open>setTargetAtTime\<close>), in call order. JavaScript numbers are taken as real numbers.
  \<open>context.currentTime\<close> does not move while a call of the engine runs, so each function
  reads it from the state it is called in.
  The code's \<open>setTimeout\<close> callbacks are kept as pending timers with a due time on the
  clock of \<open>context.currentTime\<close>, in seconds.
\<close>

subsection \<open>Parameter snapshots (src/types.ts)\<close>

record LFOConfig =
  enabled :: bool
  rate :: real
  depth :: real

text \<open>
  An AudioBuffer as the code reads it: \<open>numberOfChannels\<close>, \<open>sampleRate\<close>, the
  number of sample frames and \<open>getChannelData(c)[i]\<close>. All channels of an AudioBuffer have the
  same length.
\<close>

record AudioBuffer =
  numberOfChannels :: nat
  sampleRate :: real
  frames :: nat
  channelData :: "nat \<Rightarrow> nat \<Rightarrow> real"

text \<open>
  \<open>TrackData\<close>; the field \<open>id\<close> is called \<open>tid\<close> here. \<open>feedbackTargetId\<close> is
  \<open>None\<close> where the JavaScript value is \<open>undefined\<close> (presets saved before the field
  existed), which the code tests for.
\<close>

record TrackData =
  tid :: int
  buffer :: "AudioBuffer option"
  isPlaying :: bool
  isMuted :: bool
  isSolo :: bool
  volume :: real
  pan :: real
  playbackRate :: real
  eqLow :: real
  eqMid :: real
  eqHigh :: real
  lfoVol :: LFOConfig
  lfoPan :: LFOConfig
  lfoPitch :: LFOConfig
  driftEnabled :: bool
  linkNext :: bool
  crossfadeSpeed :: real
  reverbSend :: real
  granularSpray :: real
  feedbackSend :: real
  feedbackTargetId :: "int option"

subsection \<open>The graph store\<close>

text \<open>
  The twelve chain nodes of a track are created once, by \<open>initTrack\<close>, and the track table
  never drops or replaces an entry, so such a node is addressed by track id and field name.
  Nodes created later (\<open>createOscillator\<close>, \<open>createGain\<close>, \<open>createBufferSource\<close>) take
  their address from a counter.
\<close>

datatype role = TremoloGain | EqLow | EqMid | EqHigh | Panner | VolGain | FadeGain | MuteGain
  | ReverbSend | SprayGain | FeedbackGain | FeedbackFMGain

datatype node = MasterGain | Compressor | Analyser | CtxDestination | StreamDest
  | ReverbGain | ReverbConvolver | Chain int role | Osc nat | GainN nat | Source nat

datatype pname = PGain | PFrequency | PQ | PPan | PPlaybackRate
  | PThreshold | PKnee | PRatio | PAttack | PRelease

type_synonym param = "node \<times> pname"

datatype dest = ToNode node | ToParam param

datatype automation =
    Assign real real
  | SetValueAtTime real real
  | SetTargetAtTime real real real

fun time_of :: "automation \<Rightarrow> real" where
  "time_of (Assign v t) = t"
| "time_of (SetValueAtTime v t) = t"
| "time_of (SetTargetAtTime v t tc) = t"

fun is_assign :: "automation \<Rightarrow> bool" where
  "is_assign (Assign v t) = True"
| "is_assign (SetValueAtTime v t) = False"
| "is_assign (SetTargetAtTime v t tc) = False"

text \<open>
  The nullable fields of \<open>TrackNodes\<close>. Each holds \<open>null\<close> or a node of the class its
  TypeScript type names, so it holds the counter value \<open>k\<close> of that node: \<open>Source k\<close> for
  an \<open>AudioBufferSourceNode\<close>, \<open>Osc k\<close> for an \<open>OscillatorNode\<close>, \<open>GainN k\<close> for a
  \<open>GainNode\<close> made by \<open>createGain\<close> outside \<open>initTrack\<close>. The oscillator fields
  \<open>lfoVol\<close>, \<open>lfoPan\<close> and \<open>lfoPitch\<close> carry the suffix \<open>N\<close>, the names being taken
  by the snapshot.
\<close>

record TrackNodes =
  source :: "nat option"
  lfoVolN :: "nat option"
  lfoVolGain :: "nat option"
  lfoPanN :: "nat option"
  lfoPanGain :: "nat option"
  lfoPitchN :: "nat option"
  lfoPitchGain :: "nat option"
  driftLfo :: "nat option"
  driftGain :: "nat option"
  fadeOsc :: "nat option"
  fadeGainOsc :: "nat option"

datatype ctx_state = Suspended | Running

datatype timer = StopSource nat | DriftTeardown int

datatype error = TypeError

record Engine =
  ctxState :: ctx_state
  currentTime :: real
  nextNode :: nat
  noiseSource :: "nat option"
  tracks :: "int \<Rightarrow> TrackNodes option"
  trackIds :: "int list"
  edges :: "(node \<times> dest) list"
  timeline :: "param \<Rightarrow> automation list"
  started :: "node list"
  stopped :: "node list"
  timers :: "(real \<times> timer) list"

subsection \<open>Web Audio calls as the code makes them\<close>

definition connect :: "node \<Rightarrow> dest \<Rightarrow> Engine \<Rightarrow> Engine" where
  "connect n d s = s\<lparr>edges := List.insert (n, d) (edges s)\<rparr>"

definition disconnect :: "node \<Rightarrow> Engine \<Rightarrow> Engine" where
  "disconnect n s = s\<lparr>edges := filter (\<lambda>e. fst e \<noteq> n) (edges s)\<rparr>"

definition start :: "node \<Rightarrow> Engine \<Rightarrow> Engine" where
  "start n s = s\<lparr>started := List.insert n (started s)\<rparr>"

definition stop :: "node \<Rightarrow> Engine \<Rightarrow> Engine" where
  "stop n s = s\<lparr>stopped := List.insert n (stopped s)\<rparr>"

definition alloc :: "Engine \<Rightarrow> Engine" where
  "alloc s = s\<lparr>nextNode := Suc (nextNode s)\<rparr>"

definition assign :: "param \<Rightarrow> real \<Rightarrow> Engine \<Rightarrow> Engine" where
  "assign p v s = s\<lparr>timeline := (timeline s)(p := timeline s p @ [Assign v (currentTime s)])\<rparr>"

definition setValueAtTime :: "param \<Rightarrow> real \<Rightarrow> real \<Rightarrow> Engine \<Rightarrow> Engine" where
  "setValueAtTime p v t s = s\<lparr>timeline := (timeline s)(p := timeline s p @ [SetValueAtTime v t])\<rparr>"

definition setTargetAtTime :: "param \<Rightarrow> real \<Rightarrow> real \<Rightarrow> real \<Rightarrow> Engine \<Rightarrow> Engine" where
  "setTargetAtTime p v t tc s =
     s\<lparr>timeline := (timeline s)(p := timeline s p @ [SetTargetAtTime v t tc])\<rparr>"

definition cancelScheduledValues :: "param \<Rightarrow> real \<Rightarrow> Engine \<Rightarrow> Engine" where
  "cancelScheduledValues p t s =
     s\<lparr>timeline := (timeline s)(p := filter (\<lambda>e. is_assign e \<or> time_of e < t) (timeline s p))\<rparr>"

definition setTimeout :: "timer \<Rightarrow> real \<Rightarrow> Engine \<Rightarrow> Engine" where
  "setTimeout cb ms s = s\<lparr>timers := timers s @ [(currentTime s + ms / 1000, cb)]\<rparr>"

definition out_edges :: "node \<Rightarrow> Engine \<Rightarrow> dest list" where
  "out_edges n s = map snd (filter (\<lambda>e. fst e = n) (edges s))"

definition in_edges :: "dest \<Rightarrow> Engine \<Rightarrow> node list" where
  "in_edges d s = map fst (filter (\<lambda>e. snd e = d) (edges s))"

definition driven_to :: "param \<Rightarrow> Engine \<Rightarrow> real option" where
  "driven_to p s =
     (case rev (timeline s p) of
        SetTargetAtTime v t tc # es \<Rightarrow> Some v
      | _ \<Rightarrow> None)"

subsection \<open>Construction\<close>

definition startGlobalNoise :: "Engine \<Rightarrow> Engine" where
  "startGlobalNoise s =
     start (Source (nextNode s)) ((alloc s)\<lparr>noiseSource := Some (nextNode s)\<rparr>)"

text \<open>
  The constructor. The browser decides whether a new context is suspended or running, so
  that is an argument. The noise buffer and the impulse response are filled from
  \<open>Math.random\<close>; buffers' contents are not part of the store.
\<close>

definition AudioEngine_new :: "ctx_state \<Rightarrow> Engine" where
  "AudioEngine_new st =
     (let s0 = \<lparr>ctxState = st, currentTime = 0, nextNode = 0, noiseSource = None,
                tracks = (\<lambda>i. None), trackIds = [], edges = [], timeline = (\<lambda>p. []),
                started = [], stopped = [], timers = []\<rparr>;
          s1 = assign (Compressor, PThreshold) (- 16) s0;
          s2 = assign (Compressor, PKnee) 30 s1;
          s3 = assign (Compressor, PRatio) 12 s2;
          s4 = assign (Compressor, PAttack) 0.05 s3;
          s5 = assign (Compressor, PRelease) 0.25 s4;
          s6 = connect MasterGain (ToNode Compressor) s5;
          s7 = connect Compressor (ToNode Analyser) s6;
          s8 = connect Analyser (ToNode CtxDestination) s7;
          s9 = connect Analyser (ToNode StreamDest) s8;
          s10 = connect ReverbGain (ToNode MasterGain) s9;
          s11 = connect ReverbConvolver (ToNode ReverbGain) s10
      in startGlobalNoise s11)"

definition resume :: "Engine \<Rightarrow> Engine" where
  "resume s = (if ctxState s = Suspended then s\<lparr>ctxState := Running\<rparr> else s)"

subsection \<open>EQ\<close>

definition mapGain :: "real \<Rightarrow> real" where
  "mapGain val = (if val \<le> 0.5 then - 40 + (val * 2 * 40) else (val - 0.5) * 2 * 12)"

definition updateTrackEQ :: "TrackData \<Rightarrow> Engine \<Rightarrow> Engine" where
  "updateTrackEQ track s =
     (case tracks s (tid track) of
        None \<Rightarrow> s
      | Some nodes \<Rightarrow>
          (let i = tid track;
               s1 = setTargetAtTime (Chain i EqLow, PGain) (mapGain (eqLow track)) (currentTime s) 0.1 s;
               s2 = setTargetAtTime (Chain i EqMid, PGain) (mapGain (eqMid track)) (currentTime s) 0.1 s1
           in setTargetAtTime (Chain i EqHigh, PGain) (mapGain (eqHigh track)) (currentTime s) 0.1 s2))"

definition updateMasterVolume :: "real \<Rightarrow> Engine \<Rightarrow> Engine" where
  "updateMasterVolume vol s = setTargetAtTime (MasterGain, PGain) vol (currentTime s) 0.05 s"

subsection \<open>LFOs\<close>

datatype lfo_slot = LfoVol | LfoPan | LfoPitch

fun get_osc :: "lfo_slot \<Rightarrow> TrackNodes \<Rightarrow> nat option" where
  "get_osc LfoVol n = lfoVolN n"
| "get_osc LfoPan n = lfoPanN n"
| "get_osc LfoPitch n = lfoPitchN n"

fun get_gain :: "lfo_slot \<Rightarrow> TrackNodes \<Rightarrow> nat option" where
  "get_gain LfoVol n = lfoVolGain n"
| "get_gain LfoPan n = lfoPanGain n"
| "get_gain LfoPitch n = lfoPitchGain n"

fun set_osc :: "lfo_slot \<Rightarrow> nat option \<Rightarrow> TrackNodes \<Rightarrow> TrackNodes" where
  "set_osc LfoVol v n = n\<lparr>lfoVolN := v\<rparr>"
| "set_osc LfoPan v n = n\<lparr>lfoPanN := v\<rparr>"
| "set_osc LfoPitch v n = n\<lparr>lfoPitchN := v\<rparr>"

fun set_gain :: "lfo_slot \<Rightarrow> nat option \<Rightarrow> TrackNodes \<Rightarrow> TrackNodes" where
  "set_gain LfoVol v n = n\<lparr>lfoVolGain := v\<rparr>"
| "set_gain LfoPan v n = n\<lparr>lfoPanGain := v\<rparr>"
| "set_gain LfoPitch v n = n\<lparr>lfoPitchGain := v\<rparr>"

fun config_of :: "lfo_slot \<Rightarrow> TrackData \<Rightarrow> LFOConfig" where
  "config_of LfoVol t = lfoVol t"
| "config_of LfoPan t = lfoPan t"
| "config_of LfoPitch t = lfoPitch t"

text \<open>
  \<open>manageLFO\<close> receives the \<open>TrackNodes\<close> object of track \<open>i\<close> and mutates it; here it
  receives \<open>i\<close>. The slot stands for the pair of keys \<open>oscKey\<close>, \<open>gainKey\<close>. Where the
  oscillator is present and the gain is null, \<open>nodes[gainKey]!.gain\<close> raises a TypeError that
  nothing catches.
\<close>

definition manageLFO ::
  "lfo_slot \<Rightarrow> LFOConfig \<Rightarrow> int \<Rightarrow> param option \<Rightarrow> real \<Rightarrow> Engine \<Rightarrow> error + Engine" where
  "manageLFO slot config i targetParam depthScalar s =
     (case tracks s i of
        None \<Rightarrow> Inr s
      | Some nodes \<Rightarrow>
          if enabled config then
            (let s1 = (if get_osc slot nodes = None then
                         (let osc = nextNode s;
                              gain = Suc (nextNode s);
                              sa = alloc (alloc s);
                              sb = start (Osc osc) sa;
                              sc = connect (Osc osc) (ToNode (GainN gain)) sb
                          in sc\<lparr>tracks := (tracks sc)(i \<mapsto>
                               set_gain slot (Some gain) (set_osc slot (Some osc) nodes))\<rparr>)
                       else s)
             in case tracks s1 i of
                  None \<Rightarrow> Inr s1
                | Some nodes1 \<Rightarrow>
                    (case get_osc slot nodes1 of
                       None \<Rightarrow> Inl TypeError
                     | Some osc \<Rightarrow>
                         (case get_gain slot nodes1 of
                            None \<Rightarrow> Inl TypeError
                          | Some gain \<Rightarrow>
                              (let s2 = setTargetAtTime (Osc osc, PFrequency) (rate config)
                                          (currentTime s) 0.1 s1;
                                   s3 = setTargetAtTime (GainN gain, PGain)
                                          (depth config * depthScalar) (currentTime s) 0.1 s2
                               in case targetParam of
                                    None \<Rightarrow> Inr s3
                                  | Some p \<Rightarrow>
                                      Inr (connect (GainN gain) (ToParam p)
                                             (disconnect (GainN gain) s3))))))
          else
            (case get_osc slot nodes of
               None \<Rightarrow> Inr s
             | Some osc \<Rightarrow>
                 (let s1 = stop (Osc osc) s;
                      s2 = disconnect (Osc osc) s1;
                      s3 = (case get_gain slot nodes of
                              None \<Rightarrow> s2
                            | Some g \<Rightarrow> disconnect (GainN g) s2)
                  in Inr (s3\<lparr>tracks := (tracks s3)(i \<mapsto>
                            set_gain slot None (set_osc slot None nodes))\<rparr>))))"

definition pitchParam :: "int \<Rightarrow> Engine \<Rightarrow> param option" where
  "pitchParam i s =
     (case tracks s i of
        None \<Rightarrow> None
      | Some nodes \<Rightarrow> (case source nodes of None \<Rightarrow> None | Some src \<Rightarrow> Some (Source src, PPlaybackRate)))"

definition updateTrackLFOs :: "TrackData \<Rightarrow> Engine \<Rightarrow> error + Engine" where
  "updateTrackLFOs track s =
     (let i = tid track
      in case tracks s i of
           None \<Rightarrow> Inr s
         | Some nodes \<Rightarrow>
             (case manageLFO LfoVol (lfoVol track) i (Some (Chain i TremoloGain, PGain)) 0.5 s of
                Inl e \<Rightarrow> Inl e
              | Inr s1 \<Rightarrow>
                  (case manageLFO LfoPan (lfoPan track) i (Some (Chain i Panner, PPan)) 1.0 s1 of
                     Inl e \<Rightarrow> Inl e
                   | Inr s2 \<Rightarrow>
                       manageLFO LfoPitch (lfoPitch track) i (pitchParam i s2) 0.2 s2)))"

subsection \<open>Drift\<close>

text \<open>\<open>rnd\<close> is the value \<open>Math.random()\<close> returns when the generator is created.\<close>

definition updateTrackDrift :: "TrackData \<Rightarrow> real \<Rightarrow> Engine \<Rightarrow> error + Engine" where
  "updateTrackDrift track rnd s =
     (let i = tid track
      in case tracks s i of
           None \<Rightarrow> Inr s
         | Some nodes \<Rightarrow>
             if driftEnabled track then
               (let s1 = (if driftLfo nodes = None then
                            (let lfo = nextNode s;
                                 g = Suc (nextNode s);
                                 sa = alloc (alloc s);
                                 sb = assign (Osc lfo, PFrequency) (0.01 + (rnd * 0.04)) sa;
                                 sc = start (Osc lfo) sb;
                                 sd = connect (Osc lfo) (ToNode (GainN g)) sc;
                                 se = connect (GainN g) (ToParam (Chain i VolGain, PGain)) sd
                             in se\<lparr>tracks := (tracks se)(i \<mapsto>
                                  nodes\<lparr>driftLfo := Some lfo, driftGain := Some g\<rparr>)\<rparr>)
                          else s)
                in case tracks s1 i of
                     None \<Rightarrow> Inr s1
                   | Some nodes1 \<Rightarrow>
                       (case driftGain nodes1 of
                          None \<Rightarrow> Inl TypeError
                        | Some g \<Rightarrow>
                            Inr (setTargetAtTime (GainN g, PGain) 0.3 (currentTime s) 1.0 s1)))
             else
               (case driftLfo nodes of
                  None \<Rightarrow> Inr s
                | Some lfo \<Rightarrow>
                    (let s1 = (case driftGain nodes of
                                 None \<Rightarrow> s
                               | Some g \<Rightarrow>
                                   setTargetAtTime (GainN g, PGain) 0 (currentTime s) 2.0 s)
                     in Inr (setTimeout (DriftTeardown i) 2100 s1))))"

subsection \<open>Crossfade\<close>

definition updateCrossfade :: "TrackData \<Rightarrow> Engine \<Rightarrow> Engine" where
  "updateCrossfade trackA s =
     (let a = tid trackA; b = tid trackA + 1
      in case tracks s a of
           None \<Rightarrow> s
         | Some nodesA \<Rightarrow>
             if linkNext trackA \<and> tracks s b \<noteq> None then
               (let s1 = (if fadeOsc nodesA = None then
                            (let osc = nextNode s;
                                 g = Suc (nextNode s);
                                 sa = alloc (alloc s);
                                 sb = start (Osc osc) sa;
                                 sc = connect (Osc osc) (ToNode (GainN g)) sb;
                                 sd = assign (GainN g, PGain) 0.5 sc;
                                 se = assign (Chain a FadeGain, PGain) 0.5 sd;
                                 sf = connect (GainN g) (ToParam (Chain a FadeGain, PGain)) se;
                                 sg = assign (Chain b FadeGain, PGain) 0.5 sf;
                                 inverter = GainN (Suc (Suc (nextNode s)));
                                 sh = alloc sg;
                                 si = assign (inverter, PGain) (- 1) sh;
                                 sj = connect (GainN g) (ToNode inverter) si;
                                 sk = connect inverter (ToParam (Chain b FadeGain, PGain)) sj
                             in sk\<lparr>tracks := (tracks sk)(a \<mapsto>
                                  nodesA\<lparr>fadeOsc := Some osc, fadeGainOsc := Some g\<rparr>)\<rparr>)
                          else s)
                in case tracks s1 a of
                     None \<Rightarrow> s1
                   | Some nodes1 \<Rightarrow>
                       (case fadeOsc nodes1 of
                          None \<Rightarrow> s1
                        | Some osc \<Rightarrow>
                            setTargetAtTime (Osc osc, PFrequency) (crossfadeSpeed trackA)
                              (currentTime s) 0.1 s1))
             else
               (case fadeOsc nodesA of
                  None \<Rightarrow> s
                | Some osc \<Rightarrow>
                    (let s1 = stop (Osc osc) s;
                         s2 = disconnect (Osc osc) s1;
                         s3 = (case fadeGainOsc nodesA of
                                 None \<Rightarrow> s2
                               | Some g \<Rightarrow> disconnect (GainN g) s2);
                         s4 = s3\<lparr>tracks := (tracks s3)(a \<mapsto>
                                nodesA\<lparr>fadeOsc := None, fadeGainOsc := None\<rparr>)\<rparr>;
                         s5 = setTargetAtTime (Chain a FadeGain, PGain) 1 (currentTime s) 0.1 s4
                     in if tracks s5 b \<noteq> None
                        then setTargetAtTime (Chain b FadeGain, PGain) 1 (currentTime s) 0.1 s5
                        else s5)))"

subsection \<open>Transport\<close>

definition playTrack :: "TrackData \<Rightarrow> Engine \<Rightarrow> Engine" where
  "playTrack track s0 =
     (let s = resume s0; i = tid track
      in case tracks s i of
           None \<Rightarrow> s
         | Some nodes \<Rightarrow>
             if buffer track = None then s
             else if source nodes \<noteq> None then s
             else
               (let src = nextNode s;
                    s1 = alloc s;
                    s2 = assign (Source src, PPlaybackRate) (playbackRate track) s1;
                    now = currentTime s;
                    s3 = cancelScheduledValues (Chain i MuteGain, PGain) now s2;
                    s4 = setValueAtTime (Chain i MuteGain, PGain) (if isMuted track then 0 else 1) now s3;
                    s5 = connect (Source src) (ToNode (Chain i TremoloGain)) s4;
                    s6 = start (Source src) s5;
                    s7 = s6\<lparr>tracks := (tracks s6)(i \<mapsto> nodes\<lparr>source := Some src\<rparr>)\<rparr>;
                    s8 = (if enabled (lfoPitch track) then
                            (case lfoPitchGain nodes of
                               None \<Rightarrow> s7
                             | Some g \<Rightarrow> connect (GainN g) (ToParam (Source src, PPlaybackRate)) s7)
                          else s7)
                in connect (Chain i SprayGain) (ToParam (Source src, PPlaybackRate)) s8))"

definition stopTrack :: "int \<Rightarrow> Engine \<Rightarrow> Engine" where
  "stopTrack trackId s =
     (case tracks s trackId of
        None \<Rightarrow> s
      | Some nodes \<Rightarrow>
          (case source nodes of
             None \<Rightarrow> s
           | Some oldSource \<Rightarrow>
               (let now = currentTime s;
                    s1 = cancelScheduledValues (Chain trackId MuteGain, PGain) now s;
                    s2 = setTargetAtTime (Chain trackId MuteGain, PGain) 0 now 0.05 s1;
                    s3 = disconnect (Chain trackId SprayGain) s2;
                    s4 = (case noiseSource s3 of
                            None \<Rightarrow> s3
                          | Some n \<Rightarrow> connect (Source n) (ToNode (Chain trackId SprayGain)) s3);
                    s5 = s4\<lparr>tracks := (tracks s4)(trackId \<mapsto> nodes\<lparr>source := None\<rparr>)\<rparr>
                in setTimeout (StopSource oldSource) 100 s5)))"

subsection \<open>Track construction\<close>

definition emptyNodes :: TrackNodes where
  "emptyNodes = \<lparr>source = None, lfoVolN = None, lfoVolGain = None, lfoPanN = None,
     lfoPanGain = None, lfoPitchN = None, lfoPitchGain = None, driftLfo = None,
     driftGain = None, fadeOsc = None, fadeGainOsc = None\<rparr>"

definition initChain :: "TrackData \<Rightarrow> Engine \<Rightarrow> Engine" where
  "initChain track s =
     (let i = tid track;
          s1 = assign (Chain i EqLow, PFrequency) 200 s;
          s2 = assign (Chain i EqMid, PFrequency) 2500 s1;
          s3 = assign (Chain i EqMid, PQ) 1.0 s2;
          s4 = assign (Chain i EqHigh, PFrequency) 8000 s3;
          s5 = assign (Chain i FeedbackGain, PGain) 0 s4;
          s6 = assign (Chain i FeedbackFMGain, PGain) 0 s5;
          s7 = connect (Chain i TremoloGain) (ToNode (Chain i EqLow)) s6;
          s8 = connect (Chain i EqLow) (ToNode (Chain i EqMid)) s7;
          s9 = connect (Chain i EqMid) (ToNode (Chain i EqHigh)) s8;
          s10 = connect (Chain i EqHigh) (ToNode (Chain i Panner)) s9;
          s11 = connect (Chain i Panner) (ToNode (Chain i VolGain)) s10;
          s12 = connect (Chain i VolGain) (ToNode (Chain i FadeGain)) s11;
          s13 = connect (Chain i FadeGain) (ToNode (Chain i MuteGain)) s12;
          s14 = connect (Chain i MuteGain) (ToNode MasterGain) s13;
          s15 = connect (Chain i VolGain) (ToNode (Chain i FeedbackGain)) s14;
          s16 = connect (Chain i VolGain) (ToNode (Chain i FeedbackFMGain)) s15;
          s17 = connect (Chain i MuteGain) (ToNode (Chain i ReverbSend)) s16;
          s18 = connect (Chain i ReverbSend) (ToNode ReverbConvolver) s17;
          s19 = (case noiseSource s18 of
                   None \<Rightarrow> s18
                 | Some n \<Rightarrow> connect (Source n) (ToNode (Chain i SprayGain)) s18);
          s20 = assign (Chain i VolGain, PGain) (volume track) s19;
          s21 = assign (Chain i MuteGain, PGain) (if isMuted track then 0 else 1) s20;
          s22 = assign (Chain i Panner, PPan) (pan track) s21;
          s23 = assign (Chain i ReverbSend, PGain) (reverbSend track) s22
      in s23\<lparr>tracks := (tracks s23)(i \<mapsto> emptyNodes), trackIds := trackIds s23 @ [i]\<rparr>)"

definition initTrack :: "TrackData \<Rightarrow> real \<Rightarrow> Engine \<Rightarrow> error + Engine" where
  "initTrack track rnd s =
     (if tracks s (tid track) \<noteq> None then Inr s
      else
        (case updateTrackLFOs track (initChain track s) of
           Inl e \<Rightarrow> Inl e
         | Inr s1 \<Rightarrow>
             (case updateTrackDrift track rnd s1 of
                Inl e \<Rightarrow> Inl e
              | Inr s2 \<Rightarrow> Inr (updateTrackEQ track s2))))"

subsection \<open>Applying a snapshot\<close>

text \<open>The remainder of JavaScript's \<open>%\<close> takes the sign of the dividend.\<close>

definition jsrem :: "int \<Rightarrow> int \<Rightarrow> int" where
  "jsrem a b = sgn a * (\<bar>a\<bar> mod \<bar>b\<bar>)"

definition transport :: "TrackData \<Rightarrow> Engine \<Rightarrow> Engine" where
  "transport track s =
     (case tracks s (tid track) of
        None \<Rightarrow> s
      | Some nodes \<Rightarrow>
          if isPlaying track \<and> source nodes = None \<and> buffer track \<noteq> None then playTrack track s
          else if \<not> isPlaying track \<and> source nodes \<noteq> None then stopTrack (tid track) s
          else s)"

definition isAudible :: "TrackData \<Rightarrow> bool \<Rightarrow> bool" where
  "isAudible track soloActive =
     (let a0 = True;
          a1 = (if isMuted track then False else a0);
          a2 = (if soloActive \<and> \<not> isSolo track then False else a1)
      in a2)"

definition volumeMute :: "TrackData \<Rightarrow> bool \<Rightarrow> Engine \<Rightarrow> Engine" where
  "volumeMute track soloActive s =
     (let i = tid track;
          s1 = setTargetAtTime (Chain i VolGain, PGain) (volume track) (currentTime s) 0.1 s
      in setTargetAtTime (Chain i MuteGain, PGain) (if isAudible track soloActive then 1.0 else 0.0)
           (currentTime s) 0.02 s1)"

definition panPitch :: "TrackData \<Rightarrow> Engine \<Rightarrow> Engine" where
  "panPitch track s =
     (let i = tid track;
          s1 = setTargetAtTime (Chain i Panner, PPan) (pan track) (currentTime s) 0.1 s
      in case pitchParam i s1 of
           None \<Rightarrow> s1
         | Some p \<Rightarrow> setTargetAtTime p (playbackRate track) (currentTime s) 0.2 s1)"

definition granular :: "TrackData \<Rightarrow> Engine \<Rightarrow> Engine" where
  "granular track s =
     (let sprayAmount = (if granularSpray track \<noteq> 0 then granularSpray track * 0.8 else 0)
      in setTargetAtTime (Chain (tid track) SprayGain, PGain) sprayAmount (currentTime s) 0.1 s)"

definition targetId :: "TrackData \<Rightarrow> int" where
  "targetId track =
     (case feedbackTargetId track of Some rawTarget \<Rightarrow> rawTarget | None \<Rightarrow> jsrem (tid track + 1) 8)"

definition feedbackAmt :: "TrackData \<Rightarrow> real" where
  "feedbackAmt track = feedbackSend track * 3000"

definition fmAmt :: "TrackData \<Rightarrow> real" where
  "fmAmt track = (if feedbackSend track > 0.5 then (feedbackSend track - 0.5) * 4.0 else 0)"

definition feedbackLoop :: "TrackData \<Rightarrow> Engine \<Rightarrow> Engine" where
  "feedbackLoop track s =
     (let i = tid track;
          s1 = disconnect (Chain i FeedbackFMGain) (disconnect (Chain i FeedbackGain) s)
      in if targetId track \<noteq> - 1 then
           (case tracks s1 (targetId track) of
              None \<Rightarrow> s1
            | Some targetNodes \<Rightarrow>
                (let s2 = setTargetAtTime (Chain i FeedbackGain, PGain) (feedbackAmt track)
                            (currentTime s) 0.1 s1;
                     s3 = setTargetAtTime (Chain i FeedbackFMGain, PGain) (fmAmt track)
                            (currentTime s) 0.1 s2
                 in if feedbackSend track > 0.01 then
                      (let s4 = connect (Chain i FeedbackGain)
                                  (ToParam (Chain (targetId track) EqMid, PFrequency)) s3
                       in if fmAmt track > 0 then
                            (case source targetNodes of
                               None \<Rightarrow> s4
                             | Some src \<Rightarrow>
                                 connect (Chain i FeedbackFMGain)
                                   (ToParam (Source src, PPlaybackRate)) s4)
                          else s4)
                    else s3))
         else
           (let s2 = setTargetAtTime (Chain i FeedbackGain, PGain) 0 (currentTime s) 0.1 s1
            in setTargetAtTime (Chain i FeedbackFMGain, PGain) 0 (currentTime s) 0.1 s2))"

text \<open>
  Sections 1 to 4 of \<open>updateTrackParams\<close> (transport, volume and mute, pan and pitch, EQ and
  reverb send), which raise nothing, and sections 6 and 7 (spray, feedback), around the
  modulation section.
\<close>

definition paramsHead :: "TrackData \<Rightarrow> bool \<Rightarrow> Engine \<Rightarrow> Engine" where
  "paramsHead track soloActive s =
     (let s1 = transport track s;
          s2 = volumeMute track soloActive s1;
          s3 = panPitch track s2;
          s4 = updateTrackEQ track s3
      in setTargetAtTime (Chain (tid track) ReverbSend, PGain) (reverbSend track) (currentTime s) 0.1 s4)"

definition paramsTail :: "TrackData \<Rightarrow> Engine \<Rightarrow> Engine" where
  "paramsTail track s =
     (let s1 = (if jsrem (tid track) 2 = 0 then updateCrossfade track s else s);
          s2 = granular track s1
      in feedbackLoop track s2)"

definition updateTrackParams ::
  "TrackData \<Rightarrow> real \<Rightarrow> bool \<Rightarrow> int option \<Rightarrow> real \<Rightarrow> Engine \<Rightarrow> error + Engine" where
  "updateTrackParams track masterVolume soloActive soloTrackId rnd s =
     (case tracks s (tid track) of
        None \<Rightarrow> Inr s
      | Some nodes \<Rightarrow>
          (case updateTrackLFOs track (paramsHead track soloActive s) of
             Inl e \<Rightarrow> Inl e
           | Inr s1 \<Rightarrow>
               (case updateTrackDrift track rnd s1 of
                  Inl e \<Rightarrow> Inl e
                | Inr s2 \<Rightarrow> Inr (paramsTail track s2))))"

subsection \<open>Reset\<close>

definition killOsc :: "nat option \<Rightarrow> Engine \<Rightarrow> Engine" where
  "killOsc osc s = (case osc of None \<Rightarrow> s | Some n \<Rightarrow> disconnect (Osc n) (stop (Osc n) s))"

definition resetParam :: "param \<Rightarrow> real \<Rightarrow> Engine \<Rightarrow> Engine" where
  "resetParam p v s = assign p v (cancelScheduledValues p (currentTime s) s)"

definition resetTrack :: "int \<Rightarrow> Engine \<Rightarrow> Engine" where
  "resetTrack i s0 =
     (let s = stopTrack i s0
      in case tracks s i of
           None \<Rightarrow> s
         | Some nodes \<Rightarrow>
             (let s1 = killOsc (lfoVolN nodes) s;
                  s2 = killOsc (lfoPanN nodes) s1;
                  s3 = killOsc (lfoPitchN nodes) s2;
                  s4 = killOsc (driftLfo nodes) s3;
                  s5 = killOsc (fadeOsc nodes) s4;
                  s6 = s5\<lparr>tracks := (tracks s5)(i \<mapsto> nodes\<lparr>lfoVolN := None, lfoPanN := None,
                         lfoPitchN := None, driftLfo := None, fadeOsc := None\<rparr>)\<rparr>;
                  s7 = resetParam (Chain i VolGain, PGain) 0.6 s6;
                  s8 = resetParam (Chain i MuteGain, PGain) 1.0 s7;
                  s9 = resetParam (Chain i FadeGain, PGain) 1.0 s8;
                  s10 = resetParam (Chain i Panner, PPan) 0 s9;
                  s11 = resetParam (Chain i ReverbSend, PGain) 0.2 s10;
                  s12 = resetParam (Chain i SprayGain, PGain) 0 s11;
                  s13 = resetParam (Chain i FeedbackGain, PGain) 0 s12
              in resetParam (Chain i FeedbackFMGain, PGain) 0 s13))"

definition reset :: "Engine \<Rightarrow> Engine" where
  "reset s =
     (let s1 = fold resetTrack (trackIds s) s;
          s2 = updateMasterVolume 0.8 s1
      in if noiseSource s2 = None then startGlobalNoise s2 else s2)"

subsection \<open>Timers\<close>

fun run_timer :: "timer \<Rightarrow> Engine \<Rightarrow> Engine" where
  "run_timer (StopSource oldSource) s = disconnect (Source oldSource) (stop (Source oldSource) s)"
| "run_timer (DriftTeardown i) s =
     (case tracks s i of
        None \<Rightarrow> s
      | Some nodes \<Rightarrow>
          (case driftLfo nodes of
             None \<Rightarrow> s
           | Some lfo \<Rightarrow>
               (let s1 = stop (Osc lfo) s;
                    s2 = disconnect (Osc lfo) s1;
                    s3 = (case driftGain nodes of None \<Rightarrow> s2 | Some g \<Rightarrow> disconnect (GainN g) s2)
                in s3\<lparr>tracks := (tracks s3)(i \<mapsto> nodes\<lparr>driftLfo := None, driftGain := None\<rparr>)\<rparr>)))"

text \<open>
  Time passes between two calls of the engine: the clock moves on by \<open>dt\<close> seconds and the
  callbacks that are due by then run, earliest first.
\<close>

definition advance :: "real \<Rightarrow> Engine \<Rightarrow> Engine" where
  "advance dt s =
     (let t = currentTime s + dt;
          due = filter (\<lambda>x. fst x \<le> t) (timers s);
          rest = filter (\<lambda>x. \<not> fst x \<le> t) (timers s)
      in fold (\<lambda>x. run_timer (snd x)) (sort_key fst due) (s\<lparr>currentTime := t, timers := rest\<rparr>))"

subsection \<open>Sequences of calls\<close>

datatype call =
    InitTrack TrackData real
  | PlayTrack TrackData
  | StopTrack int
  | UpdateTrackParams TrackData real bool "int option" real
  | Reset
  | Advance real

fun step :: "call \<Rightarrow> Engine \<Rightarrow> error + Engine" where
  "step (InitTrack track rnd) s = initTrack track rnd s"
| "step (PlayTrack track) s = Inr (playTrack track s)"
| "step (StopTrack trackId) s = Inr (stopTrack trackId s)"
| "step (UpdateTrackParams track mv soloActive soloTrackId rnd) s =
     updateTrackParams track mv soloActive soloTrackId rnd s"
| "step Reset s = Inr (reset s)"
| "step (Advance dt) s = Inr (advance dt s)"

fun run :: "call list \<Rightarrow> Engine \<Rightarrow> error + Engine" where
  "run [] s = Inr s"
| "run (c # cs) s = (case step c s of Inl e \<Rightarrow> Inl e | Inr s1 \<Rightarrow> run cs s1)"

subsection \<open>The default snapshot (createDefaultTrack, with the other code of App)\<close>

definition createDefaultTrack :: "int \<Rightarrow> TrackData" where
  "createDefaultTrack i =
     \<lparr>tid = i, buffer = None, isPlaying = False, isMuted = False, isSolo = False,
      volume = 0.6, pan = 0, playbackRate = 1.0, eqLow = 0.5, eqMid = 0.5, eqHigh = 0.5,
      lfoVol = \<lparr>enabled = False, rate = 4.0, depth = 0.5\<rparr>,
      lfoPan = \<lparr>enabled = False, rate = 0.5, depth = 0.8\<rparr>,
      lfoPitch = \<lparr>enabled = False, rate = 2.0, depth = 0.1\<rparr>,
      driftEnabled = False, linkNext = False, crossfadeSpeed = 0.1, reverbSend = 0.2,
      granularSpray = 0.0, feedbackSend = 0.0, feedbackTargetId = Some (jsrem (i + 1) 8)\<rparr>"

subsection \<open>WAV encoding (audioBufferToWav)\<close>

type_synonym byte = "8 word"

text \<open>
  The \<open>DataView\<close> setters convert their argument to an integer by truncation and keep it
  modulo the width; with \<open>littleEndian = true\<close> the low byte comes first. A view is the list
  of the bytes of its buffer.
\<close>

definition trunc :: "real \<Rightarrow> int" where
  "trunc x = (if x < 0 then \<lceil>x\<rceil> else \<lfloor>x\<rfloor>)"

definition setUint8 :: "byte list \<Rightarrow> nat \<Rightarrow> real \<Rightarrow> byte list" where
  "setUint8 view off x = view[off := word_of_int (trunc x)]"

definition setUint16 :: "byte list \<Rightarrow> nat \<Rightarrow> real \<Rightarrow> byte list" where
  "setUint16 view off x =
     (view[off := word_of_int (trunc x)])[off + 1 := word_of_int (trunc x div 256)]"

definition setInt16 :: "byte list \<Rightarrow> nat \<Rightarrow> real \<Rightarrow> byte list" where
  "setInt16 view off x =
     (view[off := word_of_int (trunc x)])[off + 1 := word_of_int (trunc x div 256)]"

definition setUint32 :: "byte list \<Rightarrow> nat \<Rightarrow> real \<Rightarrow> byte list" where
  "setUint32 view off x =
     (((view[off := word_of_int (trunc x)])
         [off + 1 := word_of_int (trunc x div 256)])
         [off + 2 := word_of_int (trunc x div 65536)])
         [off + 3 := word_of_int (trunc x div 16777216)]"

fun writeString :: "byte list \<Rightarrow> nat \<Rightarrow> string \<Rightarrow> byte list" where
  "writeString view off [] = view"
| "writeString view off (c # cs) = writeString (setUint8 view off (of_nat (of_char c))) (off + 1) cs"

definition getChannelData :: "AudioBuffer \<Rightarrow> nat \<Rightarrow> real list" where
  "getChannelData b c = map (channelData b c) [0..<frames b]"

definition interleave :: "real list \<Rightarrow> real list \<Rightarrow> real list" where
  "interleave left right =
     fold (\<lambda>i result. (result[i * 2 := left ! i])[i * 2 + 1 := right ! i]) [0..<length left]
       (replicate (length left + length right) 0)"

definition quantize :: "real \<Rightarrow> real" where
  "quantize x = (let s = max (- 1) (min 1 x) in if s < 0 then s * 32768 else s * 32767)"

fun writeSamples :: "byte list \<Rightarrow> nat \<Rightarrow> real list \<Rightarrow> byte list" where
  "writeSamples view off [] = view"
| "writeSamples view off (x # xs) = writeSamples (setInt16 view off (quantize x)) (off + 2) xs"

text \<open>
  An AudioBuffer has at least one channel; \<open>getChannelData(0)\<close> of a buffer without
  channels would raise.
\<close>

datatype wav_error = IndexSizeError

definition audioBufferToWav :: "AudioBuffer \<Rightarrow> wav_error + byte list" where
  "audioBufferToWav b =
     (if numberOfChannels b = 0 then Inl IndexSizeError
      else
        (let numChannels = numberOfChannels b;
             format = 1;
             bitDepth = 16;
             result = (if numChannels = 2 then interleave (getChannelData b 0) (getChannelData b 1)
                       else getChannelData b 0);
             bytesPerSample = bitDepth div 8;
             blockAlign = numChannels * bytesPerSample;
             bufferLength = 44 + length result * bytesPerSample;
             v0 = replicate bufferLength 0;
             v1 = writeString v0 0 ''RIFF'';
             v2 = setUint32 v1 4 (of_nat (36 + length result * bytesPerSample));
             v3 = writeString v2 8 ''WAVE'';
             v4 = writeString v3 12 ''fmt '';
             v5 = setUint32 v4 16 16;
             v6 = setUint16 v5 20 format;
             v7 = setUint16 v6 22 (of_nat numChannels);
             v8 = setUint32 v7 24 (sampleRate b);
             v9 = setUint32 v8 28 (sampleRate b * of_nat blockAlign);
             v10 = setUint16 v9 32 (of_nat blockAlign);
             v11 = setUint16 v10 34 (of_nat bitDepth);
             v12 = writeString v11 36 ''data'';
             v13 = setUint32 v12 40 (of_nat (length result * bytesPerSample))
         in Inr (writeSamples v13 44 result)))"

text \<open>
  The contract in the words of the specification: the header fields in order, then the
  samples, each clamped, scaled and written as two bytes, low byte first.
\<close>

definition u16le :: "int \<Rightarrow> byte list" where
  "u16le n = [word_of_int n, word_of_int (n div 256)]"

definition u32le :: "int \<Rightarrow> byte list" where
  "u32le n = [word_of_int n, word_of_int (n div 256), word_of_int (n div 65536),
              word_of_int (n div 16777216)]"

definition ascii :: "string \<Rightarrow> byte list" where
  "ascii cs = map (\<lambda>c. word_of_int (int (of_char c))) cs"

definition pcm16 :: "real \<Rightarrow> int" where
  "pcm16 x =
     (let s = (if x < - 1 then - 1 else if 1 < x then 1 else x)
      in trunc (if s < 0 then s * 32768 else s * 32767))"

definition zipLR :: "AudioBuffer \<Rightarrow> real list" where
  "zipLR b = concat (map (\<lambda>i. [channelData b 0 i, channelData b 1 i]) [0..<frames b])"

definition wavSamples :: "AudioBuffer \<Rightarrow> real list" where
  "wavSamples b = (if numberOfChannels b = 2 then zipLR b else getChannelData b 0)"

definition wavContract :: "AudioBuffer \<Rightarrow> byte list" where
  "wavContract b =
     ascii ''RIFF'' @ u32le (36 + 2 * int (length (wavSamples b))) @ ascii ''WAVE''
     @ ascii ''fmt '' @ u32le 16 @ u16le 1 @ u16le (int (numberOfChannels b))
     @ u32le (trunc (sampleRate b))
     @ u32le (trunc (sampleRate b * real (numberOfChannels b * 2)))
     @ u16le (int (numberOfChannels b * 2)) @ u16le 16
     @ ascii ''data'' @ u32le (2 * int (length (wavSamples b)))
     @ concat (map (\<lambda>x. u16le (pcm16 x)) (wavSamples b))"

text \<open>
  The caller's loop over the snapshots (\<open>newTracks.forEach\<close> in \<open>updateTrack\<close> of App), each
  with the value \<open>Math.random()\<close> would give it.
\<close>

fun updateAll :: "(TrackData \<times> real) list \<Rightarrow> real \<Rightarrow> bool \<Rightarrow> int option \<Rightarrow> Engine \<Rightarrow> error + Engine" where
  "updateAll [] mv soloActive soloTrackId s = Inr s"
| "updateAll (x # xs) mv soloActive soloTrackId s =
     (case updateTrackParams (fst x) mv soloActive soloTrackId (snd x) s of
        Inl e \<Rightarrow> Inl e
      | Inr s1 \<Rightarrow> updateAll xs mv soloActive soloTrackId s1)"

text \<open>An engine with tracks 0 and 1 of the default pool, as \<open>initTrack\<close> leaves them.\<close>

definition demoEngine :: Engine where
  "demoEngine =
     updateTrackEQ (createDefaultTrack 1) (initChain (createDefaultTrack 1)
       (updateTrackEQ (createDefaultTrack 0) (initChain (createDefaultTrack 0)
         (AudioEngine_new Running))))"

text \<open>
  The snapshot last applied to each track: \<open>initTrack\<close> applies its snapshot when the id is
  new, \<open>updateTrackParams\<close> when the id is in the table; both return at once otherwise.
\<close>

fun applied :: "call \<Rightarrow> Engine \<Rightarrow> (int \<Rightarrow> TrackData option) \<Rightarrow> (int \<Rightarrow> TrackData option)" where
  "applied (InitTrack track rnd) s m = (if tracks s (tid track) = None then m(tid track \<mapsto> track) else m)"
| "applied (UpdateTrackParams track mv soloActive soloTrackId rnd) s m =
     (if tracks s (tid track) = None then m else m(tid track \<mapsto> track))"
| "applied (PlayTrack track) s m = m"
| "applied (StopTrack trackId) s m = m"
| "applied Reset s m = m"
| "applied (Advance dt) s m = m"

fun runS :: "call list \<Rightarrow> Engine \<Rightarrow> (int \<Rightarrow> TrackData option)
    \<Rightarrow> error + (Engine \<times> (int \<Rightarrow> TrackData option))" where
  "runS [] s m = Inr (s, m)"
| "runS (c # cs) s m = (case step c s of Inl e \<Rightarrow> Inl e | Inr s1 \<Rightarrow> runS cs s1 (applied c s m))"

text \<open>The pair of a slot is there exactly when the snapshot enables the slot.\<close>

definition lfo_matches :: "TrackData \<Rightarrow> TrackNodes \<Rightarrow> bool" where
  "lfo_matches t n =
     list_all (\<lambda>slot. (get_osc slot n \<noteq> None) = enabled (config_of slot t)
                    \<and> (get_gain slot n \<noteq> None) = enabled (config_of slot t))
       [LfoVol, LfoPan, LfoPitch]"

definition lfo_inv :: "Engine \<Rightarrow> (int \<Rightarrow> TrackData option) \<Rightarrow> bool" where
  "lfo_inv s m =
     (\<forall>i. case tracks s i of
             None \<Rightarrow> m i = None
           | Some n \<Rightarrow> (case m i of None \<Rightarrow> False | Some t \<Rightarrow> lfo_matches t n))"

subsection \<open>Observations on a state\<close>

text \<open>A field of the \<open>TrackNodes\<close> of track \<open>j\<close>, where the track is in the table.\<close>

definition fieldOf :: "(TrackNodes \<Rightarrow> 'a) \<Rightarrow> Engine \<Rightarrow> int \<Rightarrow> 'a option" where
  "fieldOf f s j = map_option f (tracks s j)"

definition lfoPart :: "TrackNodes \<Rightarrow> (nat option \<times> nat option) \<times> (nat option \<times> nat option) \<times> (nat option \<times> nat option)" where
  "lfoPart n = ((lfoVolN n, lfoVolGain n), (lfoPanN n, lfoPanGain n), (lfoPitchN n, lfoPitchGain n))"

definition driftPart :: "TrackNodes \<Rightarrow> nat option \<times> nat option" where
  "driftPart n = (driftLfo n, driftGain n)"

definition fadePart :: "TrackNodes \<Rightarrow> nat option \<times> nat option" where
  "fadePart n = (fadeOsc n, fadeGainOsc n)"

text \<open>
  The states in which the non-null assertions of \<open>manageLFO\<close> and \<open>updateTrackDrift\<close> hold:
  an oscillator that is present has its gain.
\<close>

definition nodes_ok :: "TrackNodes \<Rightarrow> bool" where
  "nodes_ok n =
     ((lfoVolN n \<noteq> None \<longrightarrow> lfoVolGain n \<noteq> None) \<and>
      (lfoPanN n \<noteq> None \<longrightarrow> lfoPanGain n \<noteq> None) \<and>
      (lfoPitchN n \<noteq> None \<longrightarrow> lfoPitchGain n \<noteq> None) \<and>
      (driftLfo n \<noteq> None \<longrightarrow> driftGain n \<noteq> None))"

definition engine_ok :: "Engine \<Rightarrow> bool" where
  "engine_ok s = (\<forall>j n. tracks s j = Some n \<longrightarrow> nodes_ok n)"

text \<open>
  The buffer sources that play into track \<open>i\<close>: connected to its first chain node, started,
  not stopped, and not handed to the callback that \<open>stopTrack\<close> schedules to stop them.
\<close>

definition playing :: "int \<Rightarrow> Engine \<Rightarrow> nat list" where
  "playing i s =
     [k. n \<leftarrow> in_edges (ToNode (Chain i TremoloGain)) s,
         k \<leftarrow> (case n of Source k \<Rightarrow> [k] | _ \<Rightarrow> []),
         Source k \<in> set (started s), Source k \<notin> set (stopped s),
         StopSource k \<notin> set (map snd (timers s))]"

definition source_inv :: "Engine \<Rightarrow> bool" where
  "source_inv s =
     ((\<forall>i. \<forall>k\<in>set (playing i s). fieldOf source s i = Some (Some k))
      \<and> (\<forall>e\<in>set (edges s). case fst e of Source k \<Rightarrow> k < nextNode s | _ \<Rightarrow> True)
      \<and> (case noiseSource s of None \<Rightarrow> False | Some k \<Rightarrow> k < nextNode s))"

text \<open>
  A step that leaves the sources alone: it connects no buffer source (the noise source to a
  spray gain apart), starts none, keeps the stopped nodes and the pending callbacks, and keeps
  the \<open>source\<close> of every track of the table.
\<close>

definition quiet :: "Engine \<Rightarrow> Engine \<Rightarrow> bool" where
  "quiet s s' =
     ((\<forall>k d. (Source k, d) \<in> set (edges s') \<longrightarrow>
          (Source k, d) \<in> set (edges s) \<or> (noiseSource s = Some k \<and> (\<exists>i. d = ToNode (Chain i SprayGain))))
      \<and> (\<forall>k. Source k \<in> set (started s') \<longrightarrow> Source k \<in> set (started s))
      \<and> set (stopped s) \<subseteq> set (stopped s')
      \<and> set (timers s) \<subseteq> set (timers s')
      \<and> nextNode s \<le> nextNode s'
      \<and> noiseSource s' = noiseSource s
      \<and> (\<forall>j x. fieldOf source s j = Some x \<longrightarrow> fieldOf source s' j = Some x))"

text \<open>A one-channel buffer of two samples, and track 0 of the default pool with it loaded.\<close>

definition demoBuffer :: AudioBuffer where
  "demoBuffer = \<lparr>numberOfChannels = 1, sampleRate = 44100, frames = 2,
                  channelData = (\<lambda>c i. if i = 0 then 1 / 2 else - 1 / 2)\<rparr>"

text \<open>A stereo buffer of two frames, its second frame out of range on both channels.\<close>

definition demoStereo :: AudioBuffer where
  "demoStereo = \<lparr>numberOfChannels = 2, sampleRate = 48000, frames = 2,
                  channelData = (\<lambda>c i. if c = 0 then (if i = 0 then 1 / 2 else 2)
                                        else (if i = 0 then - 1 / 2 else - 3))\<rparr>"

definition demoTrack :: TrackData where
  "demoTrack = (createDefaultTrack 0)\<lparr>buffer := Some demoBuffer\<rparr>"

text \<open>
  What an \<open>AudioParam\<close> does with its latest event (Web Audio API): after \<open>setTargetAtTime\<close>
  it leaves the value \<open>v0\<close> it has at the start time and approaches the target exponentially,
  with the given time constant; an assignment and \<open>setValueAtTime\<close> hold their value.
\<close>

fun value_under :: "automation \<Rightarrow> real \<Rightarrow> real \<Rightarrow> real" where
  "value_under (SetTargetAtTime v t0 tc) v0 t =
     (if t < t0 then v0 else v + (v0 - v) * exp (- ((t - t0) / tc)))"
| "value_under (SetValueAtTime v t0) v0 t = (if t < t0 then v0 else v)"
| "value_under (Assign v t0) v0 t = v"

text \<open>
  The drift generator of track \<open>i\<close>, an oscillator \<open>l\<close> with its gain \<open>g\<close>: in place,
  and stopped with nothing left of it.
\<close>

definition drift_attached :: "int \<Rightarrow> nat \<Rightarrow> nat \<Rightarrow> Engine \<Rightarrow> bool" where
  "drift_attached i l g s = (fieldOf driftPart s i = Some (Some l, Some g))"

definition drift_detached :: "int \<Rightarrow> nat \<Rightarrow> nat \<Rightarrow> Engine \<Rightarrow> bool" where
  "drift_detached i l g s =
     (fieldOf driftPart s i = Some (None, None) \<and> Osc l \<in> set (stopped s)
      \<and> out_edges (Osc l) s = [] \<and> out_edges (GainN g) s = [])"

text \<open>Track 0 of the demo engine with drift switched on.\<close>

definition driftEngine :: Engine where
  "driftEngine =
     (case updateTrackDrift ((createDefaultTrack 0)\<lparr>driftEnabled := True\<rparr>) (1 / 2) demoEngine of
        Inl e \<Rightarrow> demoEngine
      | Inr s \<Rightarrow> s)"

text \<open>
  The buffer sources that sound into track \<open>i\<close>: connected to its first chain node, started
  and not stopped.
\<close>

definition live_sources :: "int \<Rightarrow> Engine \<Rightarrow> nat list" where
  "live_sources i s =
     [k. n \<leftarrow> in_edges (ToNode (Chain i TremoloGain)) s,
         k \<leftarrow> (case n of Source k \<Rightarrow> [k] | _ \<Rightarrow> []),
         Source k \<in> set (started s), Source k \<notin> set (stopped s)]"

text \<open>Track 0 of the demo engine played, stopped and played again before the stop callback.\<close>

definition replayEngine :: Engine where
  "replayEngine = playTrack demoTrack (stopTrack 0 (playTrack demoTrack demoEngine))"

subsection \<open>The crossfade bridge and the value of a parameter\<close>

text \<open>
  The signal a node puts out at one instant (Web Audio API). \<open>x\<close> gives the sample of every
  node that makes or filters sound by itself (for an oscillator the sine of its phase); an
  oscillator is silent unless it was started and not stopped; a gain node made by
  \<open>createGain\<close> puts out the sum of its inputs times its gain. A parameter is its own value,
  as its events leave it, plus the sum of the nodes connected to it. The first argument
  bounds the number of gain nodes followed upstream.
\<close>

definition intrinsic :: "(param \<Rightarrow> real) \<Rightarrow> real \<Rightarrow> Engine \<Rightarrow> param \<Rightarrow> real" where
  "intrinsic v0 t s p =
     (case timeline s p of [] \<Rightarrow> v0 p | e # es \<Rightarrow> value_under (last (e # es)) (v0 p) t)"

primrec node_out :: "nat \<Rightarrow> (node \<Rightarrow> real) \<Rightarrow> (param \<Rightarrow> real) \<Rightarrow> real \<Rightarrow> Engine \<Rightarrow> node \<Rightarrow> real" where
  "node_out 0 x v0 t s n =
     (case n of
        GainN k \<Rightarrow> 0
      | Osc k \<Rightarrow> (if n \<in> set (started s) \<and> n \<notin> set (stopped s) then x n else 0)
      | _ \<Rightarrow> x n)"
| "node_out (Suc f) x v0 t s n =
     (case n of
        GainN k \<Rightarrow>
          (\<Sum>m\<in>set (in_edges (ToNode n) s). node_out f x v0 t s m)
          * (intrinsic v0 t s (n, PGain)
             + (\<Sum>m\<in>set (in_edges (ToParam (n, PGain)) s). node_out f x v0 t s m))
      | Osc k \<Rightarrow> (if n \<in> set (started s) \<and> n \<notin> set (stopped s) then x n else 0)
      | _ \<Rightarrow> x n)"


text \<open>The value last assigned to a parameter, where an assignment is its latest event.\<close>

definition assigned :: "param \<Rightarrow> Engine \<Rightarrow> real option" where
  "assigned p s = (case rev (timeline s p) of Assign v t # es \<Rightarrow> Some v | _ \<Rightarrow> None)"

text \<open>
  The crossfade bridge of track \<open>i\<close>: its oscillator \<open>o\<close> and gain \<open>g\<close>; the inverter was
  made right after the gain. What a state keeps true of the bridges between the calls of the
  engine: node numbers come from the counter, a bridge is wired as \<open>updateCrossfade\<close> wired
  it, no other field of a track holds a node of a bridge, and whatever else is connected to a
  fade parameter is a gain node that nothing sounding reaches.
\<close>

definition node_lt :: "nat \<Rightarrow> node \<Rightarrow> bool" where
  "node_lt b n = (case n of Osc k \<Rightarrow> k < b | GainN k \<Rightarrow> k < b | _ \<Rightarrow> True)"

fun dest_node :: "dest \<Rightarrow> node" where
  "dest_node (ToNode n) = n"
| "dest_node (ToParam p) = fst p"

definition live :: "Engine \<Rightarrow> int \<Rightarrow> nat \<Rightarrow> nat \<Rightarrow> bool" where
  "live s i ob g = (fieldOf fadePart s i = Some (Some ob, Some g))"

definition prot :: "Engine \<Rightarrow> node set" where
  "prot s = {n. \<exists>i ob g. live s i ob g \<and> (n = Osc ob \<or> n = GainN g \<or> n = GainN (Suc g))}"

definition kill_fields :: "TrackNodes \<Rightarrow> nat set" where
  "kill_fields n =
     set_option (lfoVolN n) \<union> set_option (lfoVolGain n) \<union> set_option (lfoPanN n)
     \<union> set_option (lfoPanGain n) \<union> set_option (lfoPitchN n) \<union> set_option (lfoPitchGain n)
     \<union> set_option (driftLfo n) \<union> set_option (driftGain n)"

definition closed_dest :: "nat \<Rightarrow> dest \<Rightarrow> bool" where
  "closed_dest b d =
     ((\<exists>i. d = ToParam (Chain i FadeGain, PGain)) \<or> (\<exists>k p. d = ToParam (GainN k, p))
      \<or> (\<exists>k. d = ToNode (GainN k) \<and> k < b))"

definition silent :: "Engine \<Rightarrow> node \<Rightarrow> bool" where
  "silent s m =
     (\<exists>k. m = GainN k
        \<and> (\<forall>m'. (m', ToNode m) \<in> set (edges s) \<longrightarrow>
              (\<exists>k'. m' = GainN k' \<and> (\<forall>m''. (m'', ToNode m') \<notin> set (edges s)))))"

definition xf_fresh :: "Engine \<Rightarrow> bool" where
  "xf_fresh s =
     ((\<forall>m d. (m, d) \<in> set (edges s) \<longrightarrow>
          node_lt (nextNode s) m \<and> node_lt (nextNode s) (dest_node d))
      \<and> (\<forall>i n k. tracks s i = Some n \<longrightarrow> k \<in> kill_fields n \<longrightarrow> k < nextNode s)
      \<and> (\<forall>m k p. (m, ToParam (GainN k, p)) \<notin> set (edges s))
      \<and> (\<forall>i. tracks s i \<noteq> None \<longrightarrow> i \<in> set (trackIds s))
      \<and> (\<forall>i n. tracks s i = Some n \<longrightarrow> fadeOsc n \<noteq> None \<longrightarrow> fadeGainOsc n \<noteq> None)
      \<and> (\<forall>n. n \<in> set (stopped s) \<longrightarrow> node_lt (nextNode s) n))"

definition bridge_ok :: "Engine \<Rightarrow> int \<Rightarrow> nat \<Rightarrow> nat \<Rightarrow> bool" where
  "bridge_ok s i ob g =
     (ob < nextNode s \<and> Suc g < nextNode s \<and> jsrem i 2 = 0 \<and> tracks s (i + 1) \<noteq> None
      \<and> (\<forall>m. (m, ToNode (GainN g)) \<in> set (edges s) \<longleftrightarrow> m = Osc ob)
      \<and> (\<forall>m. (m, ToNode (GainN (Suc g))) \<in> set (edges s) \<longleftrightarrow> m = GainN g)
      \<and> Osc ob \<in> set (started s) \<and> Osc ob \<notin> set (stopped s)
      \<and> assigned (GainN g, PGain) s = Some (1 / 2)
      \<and> assigned (GainN (Suc g), PGain) s = Some (- 1)
      \<and> (GainN g, ToParam (Chain i FadeGain, PGain)) \<in> set (edges s)
      \<and> (GainN (Suc g), ToParam (Chain (i + 1) FadeGain, PGain)) \<in> set (edges s))"

definition xf_apart :: "Engine \<Rightarrow> bool" where
  "xf_apart s =
     ((\<forall>i ob g j n k. live s i ob g \<longrightarrow> tracks s j = Some n \<longrightarrow> k \<in> kill_fields n \<longrightarrow>
          k \<noteq> ob \<and> k \<noteq> g \<and> k \<noteq> Suc g)
      \<and> (\<forall>i ob g j ob' g'. live s i ob g \<longrightarrow> live s j ob' g' \<longrightarrow> i \<noteq> j \<longrightarrow>
          ob \<noteq> ob' \<and> g \<noteq> g' \<and> g \<noteq> Suc g' \<and> Suc g \<noteq> g'))"

definition xf_feeders :: "Engine \<Rightarrow> bool" where
  "xf_feeders s =
     (\<forall>i m. (m, ToParam (Chain i FadeGain, PGain)) \<in> set (edges s) \<longrightarrow>
        silent s m \<or> (\<exists>ob g. live s i ob g \<and> m = GainN g)
        \<or> (\<exists>ob g. live s (i - 1) ob g \<and> m = GainN (Suc g)))"

definition xf_inv0 :: "Engine \<Rightarrow> bool" where
  "xf_inv0 s =
     (xf_fresh s \<and> (\<forall>i ob g. live s i ob g \<longrightarrow> bridge_ok s i ob g) \<and> xf_apart s \<and> xf_feeders s)"

definition xf_biased :: "Engine \<Rightarrow> bool" where
  "xf_biased s =
     (\<forall>i ob g. live s i ob g \<longrightarrow>
        assigned (Chain i FadeGain, PGain) s = Some (1 / 2)
        \<and> assigned (Chain (i + 1) FadeGain, PGain) s = Some (1 / 2))"

definition xf_inv :: "Engine \<Rightarrow> bool" where
  "xf_inv s = (xf_inv0 s \<and> xf_biased s)"

text \<open>
  A step that leaves the bridges alone: it keeps what leaves a node of a bridge, connects
  nothing new to a fade parameter, to a parameter of a made gain node or to a gain node made
  before, neither stops a bridge's oscillator nor sets a bridge's gains, keeps the bridge
  fields of every track, and fills the other fields with new nodes only.
\<close>

definition calm0 :: "Engine \<Rightarrow> Engine \<Rightarrow> bool" where
  "calm0 s s' =
     (nextNode s \<le> nextNode s'
      \<and> (\<forall>m d. (m, d) \<in> set (edges s') \<longrightarrow>
           (m, d) \<in> set (edges s)
           \<or> (node_lt (nextNode s') m \<and> node_lt (nextNode s') (dest_node d)
              \<and> \<not> closed_dest (nextNode s) d))
      \<and> (\<forall>m d. (m, d) \<in> set (edges s) \<longrightarrow> m \<in> prot s \<longrightarrow> (m, d) \<in> set (edges s'))
      \<and> (\<forall>n. n \<in> prot s \<longrightarrow>
            (n \<in> set (started s) \<longrightarrow> n \<in> set (started s'))
            \<and> (n \<in> set (stopped s') \<longrightarrow> n \<in> set (stopped s))
            \<and> timeline s' (n, PGain) = timeline s (n, PGain))
      \<and> (\<forall>j. (tracks s j \<noteq> None \<longrightarrow> fieldOf fadePart s' j = fieldOf fadePart s j)
            \<and> (tracks s j = None \<longrightarrow> tracks s' j = None \<or> fieldOf fadePart s' j = Some (None, None)))
      \<and> (\<forall>j n' k. tracks s' j = Some n' \<longrightarrow> k \<in> kill_fields n' \<longrightarrow>
            (nextNode s \<le> k \<and> k < nextNode s')
            \<or> (\<exists>n. tracks s j = Some n \<and> k \<in> kill_fields n))
      \<and> set (trackIds s) \<subseteq> set (trackIds s')
      \<and> (\<forall>j. tracks s' j \<noteq> None \<longrightarrow> tracks s j \<noteq> None \<or> j \<in> set (trackIds s'))
      \<and> (\<forall>n. n \<in> set (stopped s') \<longrightarrow> n \<in> set (stopped s) \<or> node_lt (nextNode s') n)
      \<and> (\<forall>i. timeline s' (Chain i FadeGain, PGain) = timeline s (Chain i FadeGain, PGain)))"


section \<open>Properties\<close>

subsection \<open>What each Web Audio call leaves alone\<close>

lemma connect_fields [simp]:
  "ctxState (connect n d s) = ctxState s" "currentTime (connect n d s) = currentTime s"
  "nextNode (connect n d s) = nextNode s" "noiseSource (connect n d s) = noiseSource s"
  "tracks (connect n d s) = tracks s" "trackIds (connect n d s) = trackIds s"
  "timeline (connect n d s) = timeline s" "started (connect n d s) = started s"
  "stopped (connect n d s) = stopped s" "timers (connect n d s) = timers s"
  "edges (connect n d s) = List.insert (n, d) (edges s)"
  by (simp_all add: connect_def)

lemma disconnect_fields [simp]:
  "ctxState (disconnect n s) = ctxState s" "currentTime (disconnect n s) = currentTime s"
  "nextNode (disconnect n s) = nextNode s" "noiseSource (disconnect n s) = noiseSource s"
  "tracks (disconnect n s) = tracks s" "trackIds (disconnect n s) = trackIds s"
  "timeline (disconnect n s) = timeline s" "started (disconnect n s) = started s"
  "stopped (disconnect n s) = stopped s" "timers (disconnect n s) = timers s"
  "edges (disconnect n s) = filter (\<lambda>e. fst e \<noteq> n) (edges s)"
  by (simp_all add: disconnect_def)

lemma start_fields [simp]:
  "ctxState (start n s) = ctxState s" "currentTime (start n s) = currentTime s"
  "nextNode (start n s) = nextNode s" "noiseSource (start n s) = noiseSource s"
  "tracks (start n s) = tracks s" "trackIds (start n s) = trackIds s"
  "timeline (start n s) = timeline s" "edges (start n s) = edges s"
  "stopped (start n s) = stopped s" "timers (start n s) = timers s"
  "started (start n s) = List.insert n (started s)"
  by (simp_all add: start_def)

lemma stop_fields [simp]:
  "ctxState (stop n s) = ctxState s" "currentTime (stop n s) = currentTime s"
  "nextNode (stop n s) = nextNode s" "noiseSource (stop n s) = noiseSource s"
  "tracks (stop n s) = tracks s" "trackIds (stop n s) = trackIds s"
  "timeline (stop n s) = timeline s" "edges (stop n s) = edges s"
  "started (stop n s) = started s" "timers (stop n s) = timers s"
  "stopped (stop n s) = List.insert n (stopped s)"
  by (simp_all add: stop_def)

lemma alloc_fields [simp]:
  "ctxState (alloc s) = ctxState s" "currentTime (alloc s) = currentTime s"
  "nextNode (alloc s) = Suc (nextNode s)" "noiseSource (alloc s) = noiseSource s"
  "tracks (alloc s) = tracks s" "trackIds (alloc s) = trackIds s"
  "timeline (alloc s) = timeline s" "edges (alloc s) = edges s"
  "started (alloc s) = started s" "timers (alloc s) = timers s"
  "stopped (alloc s) = stopped s"
  by (simp_all add: alloc_def)

lemma assign_fields [simp]:
  "ctxState (assign p v s) = ctxState s" "currentTime (assign p v s) = currentTime s"
  "nextNode (assign p v s) = nextNode s" "noiseSource (assign p v s) = noiseSource s"
  "tracks (assign p v s) = tracks s" "trackIds (assign p v s) = trackIds s"
  "edges (assign p v s) = edges s" "started (assign p v s) = started s"
  "stopped (assign p v s) = stopped s" "timers (assign p v s) = timers s"
  "timeline (assign p v s) q =
     (if q = p then timeline s p @ [Assign v (currentTime s)] else timeline s q)"
  by (simp_all add: assign_def)

lemma setValueAtTime_fields [simp]:
  "ctxState (setValueAtTime p v t s) = ctxState s"
  "currentTime (setValueAtTime p v t s) = currentTime s"
  "nextNode (setValueAtTime p v t s) = nextNode s"
  "noiseSource (setValueAtTime p v t s) = noiseSource s"
  "tracks (setValueAtTime p v t s) = tracks s" "trackIds (setValueAtTime p v t s) = trackIds s"
  "edges (setValueAtTime p v t s) = edges s" "started (setValueAtTime p v t s) = started s"
  "stopped (setValueAtTime p v t s) = stopped s" "timers (setValueAtTime p v t s) = timers s"
  "timeline (setValueAtTime p v t s) q =
     (if q = p then timeline s p @ [SetValueAtTime v t] else timeline s q)"
  by (simp_all add: setValueAtTime_def)

lemma setTargetAtTime_fields [simp]:
  "ctxState (setTargetAtTime p v t tc s) = ctxState s"
  "currentTime (setTargetAtTime p v t tc s) = currentTime s"
  "nextNode (setTargetAtTime p v t tc s) = nextNode s"
  "noiseSource (setTargetAtTime p v t tc s) = noiseSource s"
  "tracks (setTargetAtTime p v t tc s) = tracks s"
  "trackIds (setTargetAtTime p v t tc s) = trackIds s"
  "edges (setTargetAtTime p v t tc s) = edges s"
  "started (setTargetAtTime p v t tc s) = started s"
  "stopped (setTargetAtTime p v t tc s) = stopped s"
  "timers (setTargetAtTime p v t tc s) = timers s"
  "timeline (setTargetAtTime p v t tc s) q =
     (if q = p then timeline s p @ [SetTargetAtTime v t tc] else timeline s q)"
  by (simp_all add: setTargetAtTime_def)

lemma cancelScheduledValues_fields [simp]:
  "ctxState (cancelScheduledValues p t s) = ctxState s"
  "currentTime (cancelScheduledValues p t s) = currentTime s"
  "nextNode (cancelScheduledValues p t s) = nextNode s"
  "noiseSource (cancelScheduledValues p t s) = noiseSource s"
  "tracks (cancelScheduledValues p t s) = tracks s"
  "trackIds (cancelScheduledValues p t s) = trackIds s"
  "edges (cancelScheduledValues p t s) = edges s"
  "started (cancelScheduledValues p t s) = started s"
  "stopped (cancelScheduledValues p t s) = stopped s"
  "timers (cancelScheduledValues p t s) = timers s"
  "timeline (cancelScheduledValues p t s) q =
     (if q = p then filter (\<lambda>e. is_assign e \<or> time_of e < t) (timeline s p) else timeline s q)"
  by (simp_all add: cancelScheduledValues_def)

lemma setTimeout_fields [simp]:
  "ctxState (setTimeout cb ms s) = ctxState s" "currentTime (setTimeout cb ms s) = currentTime s"
  "nextNode (setTimeout cb ms s) = nextNode s" "noiseSource (setTimeout cb ms s) = noiseSource s"
  "tracks (setTimeout cb ms s) = tracks s" "trackIds (setTimeout cb ms s) = trackIds s"
  "edges (setTimeout cb ms s) = edges s" "started (setTimeout cb ms s) = started s"
  "stopped (setTimeout cb ms s) = stopped s" "timeline (setTimeout cb ms s) = timeline s"
  "timers (setTimeout cb ms s) = timers s @ [(currentTime s + ms / 1000, cb)]"
  by (simp_all add: setTimeout_def)

lemma resume_fields [simp]:
  "currentTime (resume s) = currentTime s"
  "nextNode (resume s) = nextNode s" "noiseSource (resume s) = noiseSource s"
  "tracks (resume s) = tracks s" "trackIds (resume s) = trackIds s"
  "edges (resume s) = edges s" "started (resume s) = started s"
  "stopped (resume s) = stopped s" "timeline (resume s) = timeline s"
  "timers (resume s) = timers s"
  by (simp_all add: resume_def)

subsection \<open>C1: the EQ mapping\<close>

lemma mapGain_low: "v \<le> 0.5 \<Longrightarrow> mapGain v = - 40 + 80 * v"
  by (simp add: mapGain_def)

lemma mapGain_high: "0.5 < v \<Longrightarrow> mapGain v = (v - 0.5) * 24"
  by (simp add: mapGain_def)

lemma updateTrackEQ_fields [simp]:
  "ctxState (updateTrackEQ t s) = ctxState s" "currentTime (updateTrackEQ t s) = currentTime s"
  "nextNode (updateTrackEQ t s) = nextNode s" "noiseSource (updateTrackEQ t s) = noiseSource s"
  "tracks (updateTrackEQ t s) = tracks s" "trackIds (updateTrackEQ t s) = trackIds s"
  "edges (updateTrackEQ t s) = edges s" "started (updateTrackEQ t s) = started s"
  "stopped (updateTrackEQ t s) = stopped s" "timers (updateTrackEQ t s) = timers s"
  by (simp_all add: updateTrackEQ_def Let_def split: option.splits)

lemma volumeMute_fields [simp]:
  "ctxState (volumeMute t a s) = ctxState s" "currentTime (volumeMute t a s) = currentTime s"
  "nextNode (volumeMute t a s) = nextNode s" "noiseSource (volumeMute t a s) = noiseSource s"
  "tracks (volumeMute t a s) = tracks s" "trackIds (volumeMute t a s) = trackIds s"
  "edges (volumeMute t a s) = edges s" "started (volumeMute t a s) = started s"
  "stopped (volumeMute t a s) = stopped s" "timers (volumeMute t a s) = timers s"
  by (simp_all add: volumeMute_def Let_def)

lemma panPitch_fields [simp]:
  "ctxState (panPitch t s) = ctxState s" "currentTime (panPitch t s) = currentTime s"
  "nextNode (panPitch t s) = nextNode s" "noiseSource (panPitch t s) = noiseSource s"
  "tracks (panPitch t s) = tracks s" "trackIds (panPitch t s) = trackIds s"
  "edges (panPitch t s) = edges s" "started (panPitch t s) = started s"
  "stopped (panPitch t s) = stopped s" "timers (panPitch t s) = timers s"
  by (simp_all add: panPitch_def Let_def split: option.splits)

lemma granular_fields [simp]:
  "ctxState (granular t s) = ctxState s" "currentTime (granular t s) = currentTime s"
  "nextNode (granular t s) = nextNode s" "noiseSource (granular t s) = noiseSource s"
  "tracks (granular t s) = tracks s" "trackIds (granular t s) = trackIds s"
  "edges (granular t s) = edges s" "started (granular t s) = started s"
  "stopped (granular t s) = stopped s" "timers (granular t s) = timers s"
  by (simp_all add: granular_def Let_def)

lemma feedbackLoop_fields [simp]:
  "ctxState (feedbackLoop t s) = ctxState s" "currentTime (feedbackLoop t s) = currentTime s"
  "nextNode (feedbackLoop t s) = nextNode s" "noiseSource (feedbackLoop t s) = noiseSource s"
  "tracks (feedbackLoop t s) = tracks s" "trackIds (feedbackLoop t s) = trackIds s"
  "started (feedbackLoop t s) = started s"
  "stopped (feedbackLoop t s) = stopped s" "timers (feedbackLoop t s) = timers s"
  by (simp_all add: feedbackLoop_def Let_def split: option.splits)

lemma playTrack_fields [simp]:
  "currentTime (playTrack t s) = currentTime s"
  "noiseSource (playTrack t s) = noiseSource s"
  "trackIds (playTrack t s) = trackIds s"
  "stopped (playTrack t s) = stopped s" "timers (playTrack t s) = timers s"
  by (simp_all add: playTrack_def Let_def split: option.splits)

lemma stopTrack_fields [simp]:
  "ctxState (stopTrack i s) = ctxState s" "currentTime (stopTrack i s) = currentTime s"
  "nextNode (stopTrack i s) = nextNode s" "noiseSource (stopTrack i s) = noiseSource s"
  "trackIds (stopTrack i s) = trackIds s"
  "started (stopTrack i s) = started s"
  "stopped (stopTrack i s) = stopped s"
  by (simp_all add: stopTrack_def Let_def split: option.splits)

lemma playTrack_tracks:
  "tracks (playTrack t s) j =
     (case tracks s j of None \<Rightarrow> None
      | Some n \<Rightarrow> if j = tid t \<and> buffer t \<noteq> None \<and> source n = None
                 then Some (n\<lparr>source := Some (nextNode s)\<rparr>) else Some n)"
  by (auto simp add: playTrack_def Let_def split: option.splits)

lemma stopTrack_tracks:
  "tracks (stopTrack i s) j =
     (case tracks s j of None \<Rightarrow> None
      | Some n \<Rightarrow> if j = i then Some (n\<lparr>source := None\<rparr>) else Some n)"
  by (auto simp add: stopTrack_def Let_def split: option.splits)

lemma transport_tracks:
  "tracks (transport t s) j =
     (case tracks s j of None \<Rightarrow> None
      | Some n \<Rightarrow> if j = tid t \<and> isPlaying t \<and> buffer t \<noteq> None \<and> source n = None
                 then Some (n\<lparr>source := Some (nextNode s)\<rparr>)
                 else if j = tid t \<and> \<not> isPlaying t then Some (n\<lparr>source := None\<rparr>) else Some n)"
  by (auto simp add: transport_def playTrack_tracks stopTrack_tracks split: option.splits)

lemma transport_fields [simp]:
  "currentTime (transport t s) = currentTime s"
  "noiseSource (transport t s) = noiseSource s"
  "trackIds (transport t s) = trackIds s"
  "stopped (transport t s) = stopped s"
  by (simp_all add: transport_def split: option.splits)

lemma paramsHead_fields [simp]:
  "currentTime (paramsHead t a s) = currentTime s"
  "noiseSource (paramsHead t a s) = noiseSource s"
  "trackIds (paramsHead t a s) = trackIds s"
  "stopped (paramsHead t a s) = stopped s"
  "tracks (paramsHead t a s) = tracks (transport t s)"
  by (simp_all add: paramsHead_def Let_def)

lemma parts_source_update [simp]:
  "lfoPart (n\<lparr>source := x\<rparr>) = lfoPart n" "driftPart (n\<lparr>source := x\<rparr>) = driftPart n"
  "fadePart (n\<lparr>source := x\<rparr>) = fadePart n"
  by (simp_all add: lfoPart_def driftPart_def fadePart_def)

lemma transport_parts [simp]:
  "fieldOf lfoPart (transport t s) j = fieldOf lfoPart s j"
  "fieldOf driftPart (transport t s) j = fieldOf driftPart s j"
  "fieldOf fadePart (transport t s) j = fieldOf fadePart s j"
  "(tracks (transport t s) j = None) = (tracks s j = None)"
  by (simp_all add: fieldOf_def transport_tracks split: option.splits)

lemma get_set_slot [simp]:
  "get_osc slot (set_osc slot' v n) = (if slot = slot' then v else get_osc slot n)"
  "get_gain slot (set_gain slot' v n) = (if slot = slot' then v else get_gain slot n)"
  "get_osc slot (set_gain slot' v n) = get_osc slot n"
  "get_gain slot (set_osc slot' v n) = get_gain slot n"
  by (cases slot; cases slot'; simp)+

lemma set_slot_parts [simp]:
  "driftPart (set_osc slot v n) = driftPart n" "driftPart (set_gain slot v n) = driftPart n"
  "fadePart (set_osc slot v n) = fadePart n" "fadePart (set_gain slot v n) = fadePart n"
  "source (set_osc slot v n) = source n" "source (set_gain slot v n) = source n"
  by (cases slot; simp add: driftPart_def fadePart_def)+

lemma manageLFO_ok:
  assumes "tracks s i = Some n" "get_osc slot n \<noteq> None \<longrightarrow> get_gain slot n \<noteq> None"
  shows "\<exists>s'. manageLFO slot c i tp d s = Inr s'"
  using assms by (auto simp add: manageLFO_def Let_def split: option.splits)

lemma manageLFO_frame:
  assumes "manageLFO slot c i tp d s = Inr s'"
  shows "fieldOf source s' j = fieldOf source s j"
    and "fieldOf driftPart s' j = fieldOf driftPart s j"
    and "fieldOf fadePart s' j = fieldOf fadePart s j"
    and "(tracks s' j = None) = (tracks s j = None)"
    and "currentTime s' = currentTime s" and "noiseSource s' = noiseSource s"
    and "timers s' = timers s" and "trackIds s' = trackIds s" and "ctxState s' = ctxState s"
  using assms
  by (auto simp add: manageLFO_def Let_def fieldOf_def split: option.splits if_splits)

lemma manageLFO_other:
  assumes "manageLFO slot c i tp d s = Inr s'" "slot' \<noteq> slot \<or> j \<noteq> i"
  shows "fieldOf (get_osc slot') s' j = fieldOf (get_osc slot') s j"
    and "fieldOf (get_gain slot') s' j = fieldOf (get_gain slot') s j"
  using assms
  by (auto simp add: manageLFO_def Let_def fieldOf_def split: option.splits if_splits)

lemma manageLFO_slot:
  assumes "manageLFO slot c i tp d s = Inr s'" "tracks s i = Some n"
  shows "\<exists>n'. tracks s' i = Some n' \<and> (get_osc slot n' \<noteq> None \<longleftrightarrow> enabled c)
           \<and> (enabled c \<longrightarrow> get_gain slot n' \<noteq> None)
           \<and> (\<not> enabled c \<longrightarrow> get_osc slot n \<noteq> None \<longrightarrow> get_gain slot n' = None)
           \<and> (\<not> enabled c \<longrightarrow> get_osc slot n = None \<longrightarrow> get_gain slot n' = get_gain slot n)"
  using assms
  by (auto simp add: manageLFO_def Let_def split: option.splits if_splits)

lemma lfoPart_eq_iff:
  "(lfoPart n = lfoPart n') =
     (\<forall>slot. get_osc slot n = get_osc slot n' \<and> get_gain slot n = get_gain slot n')"
proof
  assume "lfoPart n = lfoPart n'"
  then show "\<forall>slot. get_osc slot n = get_osc slot n' \<and> get_gain slot n = get_gain slot n'"
    by (auto simp add: lfoPart_def intro: lfo_slot.induct)
next
  assume a: "\<forall>slot. get_osc slot n = get_osc slot n' \<and> get_gain slot n = get_gain slot n'"
  from a[rule_format, of LfoVol] a[rule_format, of LfoPan] a[rule_format, of LfoPitch]
  show "lfoPart n = lfoPart n'" by (simp add: lfoPart_def)
qed

lemma fieldOf_lfoPart_eqI:
  assumes "\<And>slot. fieldOf (get_osc slot) s' j = fieldOf (get_osc slot) s j"
    and "\<And>slot. fieldOf (get_gain slot) s' j = fieldOf (get_gain slot) s j"
  shows "fieldOf lfoPart s' j = fieldOf lfoPart s j"
proof (cases "tracks s j")
  case None
  with assms(1)[of LfoVol] show ?thesis by (simp add: fieldOf_def)
next
  case (Some n)
  with assms(1)[of LfoVol] obtain n' where n': "tracks s' j = Some n'"
    by (auto simp add: fieldOf_def)
  from assms Some n' have "lfoPart n' = lfoPart n"
    by (simp add: lfoPart_eq_iff fieldOf_def)
  with Some n' show ?thesis by (simp add: fieldOf_def)
qed

lemma fieldOf_lfoPart_slot:
  assumes "fieldOf lfoPart s' j = fieldOf lfoPart s j"
  shows "fieldOf (get_osc slot) s' j = fieldOf (get_osc slot) s j"
    and "fieldOf (get_gain slot) s' j = fieldOf (get_gain slot) s j"
proof -
  show "fieldOf (get_osc slot) s' j = fieldOf (get_osc slot) s j"
  proof (cases "tracks s j")
    case None with assms show ?thesis by (simp add: fieldOf_def)
  next
    case (Some n)
    with assms obtain n' where n': "tracks s' j = Some n'" "lfoPart n' = lfoPart n"
      by (cases "tracks s' j") (simp_all add: fieldOf_def)
    from n'(2) have "get_osc slot n' = get_osc slot n" unfolding lfoPart_eq_iff by blast
    with Some n'(1) show ?thesis by (simp add: fieldOf_def)
  qed
  show "fieldOf (get_gain slot) s' j = fieldOf (get_gain slot) s j"
  proof (cases "tracks s j")
    case None with assms show ?thesis by (simp add: fieldOf_def)
  next
    case (Some n)
    with assms obtain n' where n': "tracks s' j = Some n'" "lfoPart n' = lfoPart n"
      by (cases "tracks s' j") (simp_all add: fieldOf_def)
    from n'(2) have "get_gain slot n' = get_gain slot n" unfolding lfoPart_eq_iff by blast
    with Some n'(1) show ?thesis by (simp add: fieldOf_def)
  qed
qed

lemma nodes_ok_slots:
  "nodes_ok n = ((\<forall>slot. get_osc slot n \<noteq> None \<longrightarrow> get_gain slot n \<noteq> None)
                 \<and> (driftLfo n \<noteq> None \<longrightarrow> driftGain n \<noteq> None))"
proof -
  have "(\<forall>slot. get_osc slot n \<noteq> None \<longrightarrow> get_gain slot n \<noteq> None) =
        ((lfoVolN n \<noteq> None \<longrightarrow> lfoVolGain n \<noteq> None) \<and>
         (lfoPanN n \<noteq> None \<longrightarrow> lfoPanGain n \<noteq> None) \<and>
         (lfoPitchN n \<noteq> None \<longrightarrow> lfoPitchGain n \<noteq> None))"
  proof
    assume a: "\<forall>slot. get_osc slot n \<noteq> None \<longrightarrow> get_gain slot n \<noteq> None"
    from a[rule_format, of LfoVol] a[rule_format, of LfoPan] a[rule_format, of LfoPitch]
    show "(lfoVolN n \<noteq> None \<longrightarrow> lfoVolGain n \<noteq> None) \<and>
         (lfoPanN n \<noteq> None \<longrightarrow> lfoPanGain n \<noteq> None) \<and>
         (lfoPitchN n \<noteq> None \<longrightarrow> lfoPitchGain n \<noteq> None)" by simp
  next
    assume a: "(lfoVolN n \<noteq> None \<longrightarrow> lfoVolGain n \<noteq> None) \<and>
         (lfoPanN n \<noteq> None \<longrightarrow> lfoPanGain n \<noteq> None) \<and>
         (lfoPitchN n \<noteq> None \<longrightarrow> lfoPitchGain n \<noteq> None)"
    show "\<forall>slot. get_osc slot n \<noteq> None \<longrightarrow> get_gain slot n \<noteq> None"
    proof
      fix slot show "get_osc slot n \<noteq> None \<longrightarrow> get_gain slot n \<noteq> None"
        using a by (cases slot) simp_all
    qed
  qed
  then show ?thesis by (simp add: nodes_ok_def)
qed

lemma nodes_ok_cong:
  "lfoPart n' = lfoPart n \<Longrightarrow> driftPart n' = driftPart n \<Longrightarrow> nodes_ok n' = nodes_ok n"
  by (simp add: nodes_ok_def lfoPart_def driftPart_def)

lemma engine_ok_frame:
  assumes "engine_ok s"
    and "\<And>j. fieldOf lfoPart s' j = fieldOf lfoPart s j"
    and "\<And>j. fieldOf driftPart s' j = fieldOf driftPart s j"
  shows "engine_ok s'"
  unfolding engine_ok_def
proof (intro allI impI)
  fix j n' assume n': "tracks s' j = Some n'"
  from assms(2)[of j] n' have "\<exists>n. tracks s j = Some n \<and> lfoPart n' = lfoPart n"
    by (cases "tracks s j") (simp_all add: fieldOf_def)
  then obtain n where n: "tracks s j = Some n" "lfoPart n' = lfoPart n" by blast
  from assms(3)[of j] n n' have "driftPart n' = driftPart n" by (simp add: fieldOf_def)
  with n(2) have "nodes_ok n' = nodes_ok n" by (rule nodes_ok_cong[of n' n])
  with n(1) assms(1) show "nodes_ok n'" by (simp add: engine_ok_def)
qed

lemma updateTrackLFOs_run:
  assumes "tracks s (tid t) = Some n"
    and ok: "\<And>slot. get_osc slot n \<noteq> None \<longrightarrow> get_gain slot n \<noteq> None"
  obtains s1 s2 s3 where
    "manageLFO LfoVol (lfoVol t) (tid t) (Some (Chain (tid t) TremoloGain, PGain)) 0.5 s = Inr s1"
    "manageLFO LfoPan (lfoPan t) (tid t) (Some (Chain (tid t) Panner, PPan)) 1.0 s1 = Inr s2"
    "manageLFO LfoPitch (lfoPitch t) (tid t) (pitchParam (tid t) s2) 0.2 s2 = Inr s3"
    "updateTrackLFOs t s = Inr s3"
proof -
  from manageLFO_ok[OF assms(1) ok[of LfoVol]] obtain s1 where
    s1: "manageLFO LfoVol (lfoVol t) (tid t) (Some (Chain (tid t) TremoloGain, PGain)) 0.5 s = Inr s1"
    by blast
  from manageLFO_frame(4)[OF s1, of "tid t"] assms(1) obtain n1 where n1: "tracks s1 (tid t) = Some n1"
    by auto
  have "fieldOf (get_osc LfoPan) s1 (tid t) = fieldOf (get_osc LfoPan) s (tid t)"
       "fieldOf (get_gain LfoPan) s1 (tid t) = fieldOf (get_gain LfoPan) s (tid t)"
    using manageLFO_other[OF s1, of LfoPan "tid t"] by simp_all
  with n1 assms(1) ok[of LfoPan] have ok1: "get_osc LfoPan n1 \<noteq> None \<longrightarrow> get_gain LfoPan n1 \<noteq> None"
    by (simp add: fieldOf_def)
  from manageLFO_ok[OF n1 ok1] obtain s2 where
    s2: "manageLFO LfoPan (lfoPan t) (tid t) (Some (Chain (tid t) Panner, PPan)) 1.0 s1 = Inr s2"
    by blast
  from manageLFO_frame(4)[OF s2, of "tid t"] n1 obtain n2 where n2: "tracks s2 (tid t) = Some n2"
    by auto
  have "fieldOf (get_osc LfoPitch) s2 (tid t) = fieldOf (get_osc LfoPitch) s (tid t)"
       "fieldOf (get_gain LfoPitch) s2 (tid t) = fieldOf (get_gain LfoPitch) s (tid t)"
    using manageLFO_other[OF s1, of LfoPitch "tid t"] manageLFO_other[OF s2, of LfoPitch "tid t"]
    by simp_all
  with n2 assms(1) ok[of LfoPitch]
  have ok2: "get_osc LfoPitch n2 \<noteq> None \<longrightarrow> get_gain LfoPitch n2 \<noteq> None"
    by (simp add: fieldOf_def)
  from manageLFO_ok[OF n2 ok2] obtain s3 where
    s3: "manageLFO LfoPitch (lfoPitch t) (tid t) (pitchParam (tid t) s2) 0.2 s2 = Inr s3"
    by blast
  have "updateTrackLFOs t s = Inr s3"
    using assms(1) s1 s2 s3 by (simp add: updateTrackLFOs_def Let_def)
  with s1 s2 s3 show ?thesis using that by blast
qed

lemma updateTrackLFOs_cases:
  assumes "updateTrackLFOs t s = Inr s'"
  obtains "tracks s (tid t) = None" "s' = s"
  | n s1 s2 where "tracks s (tid t) = Some n"
    "manageLFO LfoVol (lfoVol t) (tid t) (Some (Chain (tid t) TremoloGain, PGain)) 0.5 s = Inr s1"
    "manageLFO LfoPan (lfoPan t) (tid t) (Some (Chain (tid t) Panner, PPan)) 1.0 s1 = Inr s2"
    "manageLFO LfoPitch (lfoPitch t) (tid t) (pitchParam (tid t) s2) 0.2 s2 = Inr s'"
  using assms by (auto simp add: updateTrackLFOs_def Let_def split: option.splits sum.splits)

lemma updateTrackLFOs_frame:
  assumes "updateTrackLFOs t s = Inr s'"
  shows "fieldOf source s' j = fieldOf source s j"
    and "fieldOf driftPart s' j = fieldOf driftPart s j"
    and "fieldOf fadePart s' j = fieldOf fadePart s j"
    and "(tracks s' j = None) = (tracks s j = None)"
    and "currentTime s' = currentTime s" and "noiseSource s' = noiseSource s"
    and "timers s' = timers s" and "trackIds s' = trackIds s" and "ctxState s' = ctxState s"
  using assms
  by (elim updateTrackLFOs_cases; simp add: manageLFO_frame)+

lemma updateTrackLFOs_other:
  assumes "updateTrackLFOs t s = Inr s'" "j \<noteq> tid t"
  shows "fieldOf lfoPart s' j = fieldOf lfoPart s j"
  using assms(1)
proof (cases rule: updateTrackLFOs_cases)
  case 1 then show ?thesis by simp
next
  case (2 n s1 s2)
  show ?thesis
    by (rule fieldOf_lfoPart_eqI)
       (simp_all add: manageLFO_other[OF 2(2)] manageLFO_other[OF 2(3)] manageLFO_other[OF 2(4)] assms(2))
qed

lemma fieldOf_SomeD:
  "fieldOf f s' j = fieldOf f s j \<Longrightarrow> tracks s j = Some n \<Longrightarrow> \<exists>n'. tracks s' j = Some n' \<and> f n' = f n"
  by (cases "tracks s' j") (simp_all add: fieldOf_def)

lemma updateTrackLFOs_slot:
  assumes "updateTrackLFOs t s = Inr s'" "tracks s (tid t) = Some n"
  shows "\<exists>n'. tracks s' (tid t) = Some n'
           \<and> (get_osc slot n' \<noteq> None \<longleftrightarrow> enabled (config_of slot t))
           \<and> (enabled (config_of slot t) \<longrightarrow> get_gain slot n' \<noteq> None)
           \<and> (\<not> enabled (config_of slot t) \<longrightarrow> get_osc slot n \<noteq> None \<longrightarrow> get_gain slot n' = None)
           \<and> (\<not> enabled (config_of slot t) \<longrightarrow> get_osc slot n = None \<longrightarrow> get_gain slot n' = get_gain slot n)"
  using assms(1)
proof (cases rule: updateTrackLFOs_cases)
  case 1 with assms(2) show ?thesis by simp
next
  case (2 m s1 s2)
  from 2(1) assms(2) have [simp]: "m = n" by simp
  obtain n1 where n1: "tracks s1 (tid t) = Some n1"
    using manageLFO_frame(4)[OF 2(2), of "tid t"] assms(2) by auto
  obtain n2 where n2: "tracks s2 (tid t) = Some n2"
    using manageLFO_frame(4)[OF 2(3), of "tid t"] n1 by auto
  obtain n3 where n3: "tracks s' (tid t) = Some n3"
    using manageLFO_frame(4)[OF 2(4), of "tid t"] n2 by auto
  have pre1: "get_osc slot n1 = get_osc slot n \<and> get_gain slot n1 = get_gain slot n" if "slot \<noteq> LfoVol"
    using manageLFO_other[OF 2(2), of slot "tid t"] that n1 assms(2) by (simp add: fieldOf_def)
  have pre2: "get_osc slot n2 = get_osc slot n1 \<and> get_gain slot n2 = get_gain slot n1" if "slot \<noteq> LfoPan"
    using manageLFO_other[OF 2(3), of slot "tid t"] that n1 n2 by (simp add: fieldOf_def)
  have pre3: "get_osc slot n3 = get_osc slot n2 \<and> get_gain slot n3 = get_gain slot n2" if "slot \<noteq> LfoPitch"
    using manageLFO_other[OF 2(4), of slot "tid t"] that n2 n3 by (simp add: fieldOf_def)
  show ?thesis
  proof (cases slot)
    case LfoVol
    from manageLFO_slot[OF 2(2) assms(2)] n1 LfoVol pre2 pre3 n3 show ?thesis by simp
  next
    case LfoPan
    from manageLFO_slot[OF 2(3) n1] n2 LfoPan pre1 pre3 n3 show ?thesis by simp
  next
    case LfoPitch
    from manageLFO_slot[OF 2(4) n2] n3 LfoPitch pre1 pre2 show ?thesis by simp
  qed
qed

lemma updateTrackDrift_ok:
  assumes "tracks s (tid t) = Some n" "driftLfo n \<noteq> None \<longrightarrow> driftGain n \<noteq> None"
  shows "\<exists>s'. updateTrackDrift t r s = Inr s'"
  using assms by (auto simp add: updateTrackDrift_def Let_def split: option.splits)

lemma parts_drift_update [simp]:
  "lfoPart (n\<lparr>driftLfo := x\<rparr>) = lfoPart n" "lfoPart (n\<lparr>driftGain := y\<rparr>) = lfoPart n"
  "fadePart (n\<lparr>driftLfo := x\<rparr>) = fadePart n" "fadePart (n\<lparr>driftGain := y\<rparr>) = fadePart n"
  "lfoPart (n\<lparr>fadeOsc := x\<rparr>) = lfoPart n" "lfoPart (n\<lparr>fadeGainOsc := y\<rparr>) = lfoPart n"
  "driftPart (n\<lparr>fadeOsc := x\<rparr>) = driftPart n" "driftPart (n\<lparr>fadeGainOsc := y\<rparr>) = driftPart n"
  by (simp_all add: lfoPart_def driftPart_def fadePart_def)

lemma updateTrackDrift_frame:
  assumes "updateTrackDrift t r s = Inr s'"
  shows "fieldOf source s' j = fieldOf source s j"
    and "fieldOf lfoPart s' j = fieldOf lfoPart s j"
    and "fieldOf fadePart s' j = fieldOf fadePart s j"
    and "(tracks s' j = None) = (tracks s j = None)"
    and "currentTime s' = currentTime s" and "noiseSource s' = noiseSource s"
    and "trackIds s' = trackIds s" and "ctxState s' = ctxState s"
    and "j \<noteq> tid t \<Longrightarrow> fieldOf driftPart s' j = fieldOf driftPart s j"
  using assms
  by (auto simp add: updateTrackDrift_def Let_def fieldOf_def split: option.splits if_splits)

lemma updateTrackDrift_post:
  assumes "updateTrackDrift t r s = Inr s'" "tracks s (tid t) = Some n"
  shows "\<exists>n'. tracks s' (tid t) = Some n' \<and>
           (driftPart n' = driftPart n \<and> (driftEnabled t \<longrightarrow> driftLfo n \<noteq> None \<and> driftGain n \<noteq> None)
            \<or> driftLfo n = None \<and> driftEnabled t \<and> driftPart n' = (Some (nextNode s), Some (Suc (nextNode s))))"
  using assms
  by (auto simp add: updateTrackDrift_def Let_def driftPart_def split: option.splits if_splits)

lemma updateCrossfade_fields [simp]:
  "ctxState (updateCrossfade t s) = ctxState s" "currentTime (updateCrossfade t s) = currentTime s"
  "noiseSource (updateCrossfade t s) = noiseSource s"
  "trackIds (updateCrossfade t s) = trackIds s" "timers (updateCrossfade t s) = timers s"
  by (simp_all add: updateCrossfade_def Let_def split: option.splits)

lemma updateCrossfade_parts [simp]:
  "fieldOf source (updateCrossfade t s) j = fieldOf source s j"
  "fieldOf lfoPart (updateCrossfade t s) j = fieldOf lfoPart s j"
  "fieldOf driftPart (updateCrossfade t s) j = fieldOf driftPart s j"
  "(tracks (updateCrossfade t s) j = None) = (tracks s j = None)"
  by (auto simp add: updateCrossfade_def Let_def fieldOf_def split: option.splits)

lemma paramsTail_fields [simp]:
  "ctxState (paramsTail t s) = ctxState s" "currentTime (paramsTail t s) = currentTime s"
  "noiseSource (paramsTail t s) = noiseSource s"
  "trackIds (paramsTail t s) = trackIds s" "timers (paramsTail t s) = timers s"
  by (simp_all add: paramsTail_def Let_def)

lemma paramsTail_parts [simp]:
  "fieldOf source (paramsTail t s) j = fieldOf source s j"
  "fieldOf lfoPart (paramsTail t s) j = fieldOf lfoPart s j"
  "fieldOf driftPart (paramsTail t s) j = fieldOf driftPart s j"
  "(tracks (paramsTail t s) j = None) = (tracks s j = None)"
  by (simp_all add: paramsTail_def Let_def fieldOf_def[where s="feedbackLoop t s" for s] 
       fieldOf_def[where s="granular t s" for s] flip: fieldOf_def)

lemma paramsHead_parts [simp]:
  "fieldOf lfoPart (paramsHead t a s) j = fieldOf lfoPart s j"
  "fieldOf driftPart (paramsHead t a s) j = fieldOf driftPart s j"
  "fieldOf fadePart (paramsHead t a s) j = fieldOf fadePart s j"
  "(tracks (paramsHead t a s) j = None) = (tracks s j = None)"
  using transport_parts[of t s j] by (simp_all add: fieldOf_def)

lemma dom_eq_ex: "((t1 = None) = (t2 = None)) \<Longrightarrow> ((\<exists>y. t1 = Some y) = (\<exists>y. t2 = Some y))"
  by auto

lemmas transport_dom_ex [simp] = dom_eq_ex[OF transport_parts(4)]
lemmas paramsHead_dom_ex [simp] = dom_eq_ex[OF paramsHead_parts(4)]
lemmas updateCrossfade_dom_ex [simp] = dom_eq_ex[OF updateCrossfade_parts(4)]
lemmas paramsTail_dom_ex [simp] = dom_eq_ex[OF paramsTail_parts(4)]

lemma driven_to_snoc:
  "timeline s p = xs @ [SetTargetAtTime v t tc] \<Longrightarrow> driven_to p s = Some v"
  by (simp add: driven_to_def)

lemma manageLFO_chain_timeline:
  "manageLFO slot c i tp d s = Inr s' \<Longrightarrow> timeline s' (Chain j r, pn) = timeline s (Chain j r, pn)"
  by (auto simp add: manageLFO_def Let_def split: option.splits if_splits)

lemma updateTrackLFOs_chain_timeline:
  "updateTrackLFOs t s = Inr s' \<Longrightarrow> timeline s' (Chain j r, pn) = timeline s (Chain j r, pn)"
  by (elim updateTrackLFOs_cases) (simp_all add: manageLFO_chain_timeline)

lemma updateTrackDrift_chain_timeline:
  "updateTrackDrift t rnd s = Inr s' \<Longrightarrow> timeline s' (Chain j r, pn) = timeline s (Chain j r, pn)"
  by (auto simp add: updateTrackDrift_def Let_def split: option.splits if_splits)

lemma updateCrossfade_chain_timeline:
  "r \<noteq> FadeGain \<Longrightarrow> timeline (updateCrossfade t s) (Chain j r, pn) = timeline s (Chain j r, pn)"
  by (auto simp add: updateCrossfade_def Let_def split: option.splits if_splits)

lemma granular_timeline:
  "timeline (granular t s) p =
     (if p = (Chain (tid t) SprayGain, PGain)
      then timeline s p @ [SetTargetAtTime (if granularSpray t \<noteq> 0 then granularSpray t * 0.8 else 0)
                             (currentTime s) 0.1]
      else timeline s p)"
  by (simp add: granular_def Let_def)

lemma feedbackLoop_timeline_other:
  "p \<noteq> (Chain (tid t) FeedbackGain, PGain) \<Longrightarrow> p \<noteq> (Chain (tid t) FeedbackFMGain, PGain) \<Longrightarrow>
   timeline (feedbackLoop t s) p = timeline s p"
  by (auto simp add: feedbackLoop_def Let_def split: option.splits)

lemma feedbackLoop_timeline_on:
  assumes "targetId t \<noteq> - 1" "tracks s (targetId t) \<noteq> None"
  shows "timeline (feedbackLoop t s) (Chain (tid t) FeedbackGain, PGain) =
           timeline s (Chain (tid t) FeedbackGain, PGain)
           @ [SetTargetAtTime (feedbackAmt t) (currentTime s) 0.1]"
    and "timeline (feedbackLoop t s) (Chain (tid t) FeedbackFMGain, PGain) =
           timeline s (Chain (tid t) FeedbackFMGain, PGain)
           @ [SetTargetAtTime (fmAmt t) (currentTime s) 0.1]"
  using assms by (auto simp add: feedbackLoop_def Let_def split: option.splits)

lemma feedbackLoop_timeline_off:
  assumes "targetId t = - 1"
  shows "timeline (feedbackLoop t s) (Chain (tid t) FeedbackGain, PGain) =
           timeline s (Chain (tid t) FeedbackGain, PGain) @ [SetTargetAtTime 0 (currentTime s) 0.1]"
    and "timeline (feedbackLoop t s) (Chain (tid t) FeedbackFMGain, PGain) =
           timeline s (Chain (tid t) FeedbackFMGain, PGain) @ [SetTargetAtTime 0 (currentTime s) 0.1]"
  using assms by (auto simp add: feedbackLoop_def Let_def split: option.splits)

lemma paramsTail_mute_timeline:
  "timeline (paramsTail t s) (Chain j MuteGain, pn) = timeline s (Chain j MuteGain, pn)"
  by (simp add: paramsTail_def Let_def feedbackLoop_timeline_other granular_timeline
      updateCrossfade_chain_timeline)

lemma feedbackLoop_timeline:
  "timeline (feedbackLoop t s) (Chain (tid t) FeedbackGain, PGain) =
     timeline s (Chain (tid t) FeedbackGain, PGain)
     @ (if targetId t \<noteq> - 1
        then (if tracks s (targetId t) = None then []
              else [SetTargetAtTime (feedbackAmt t) (currentTime s) 0.1])
        else [SetTargetAtTime 0 (currentTime s) 0.1])"
  "timeline (feedbackLoop t s) (Chain (tid t) FeedbackFMGain, PGain) =
     timeline s (Chain (tid t) FeedbackFMGain, PGain)
     @ (if targetId t \<noteq> - 1
        then (if tracks s (targetId t) = None then []
              else [SetTargetAtTime (fmAmt t) (currentTime s) 0.1])
        else [SetTargetAtTime 0 (currentTime s) 0.1])"
  by (auto simp add: feedbackLoop_def Let_def split: option.splits)

lemma paramsTail_feedback_timeline:
  "timeline (paramsTail t s) (Chain (tid t) FeedbackGain, PGain) =
     timeline s (Chain (tid t) FeedbackGain, PGain)
     @ (if targetId t \<noteq> - 1
        then (if tracks s (targetId t) = None then []
              else [SetTargetAtTime (feedbackAmt t) (currentTime s) 0.1])
        else [SetTargetAtTime 0 (currentTime s) 0.1])"
  "timeline (paramsTail t s) (Chain (tid t) FeedbackFMGain, PGain) =
     timeline s (Chain (tid t) FeedbackFMGain, PGain)
     @ (if targetId t \<noteq> - 1
        then (if tracks s (targetId t) = None then []
              else [SetTargetAtTime (fmAmt t) (currentTime s) 0.1])
        else [SetTargetAtTime 0 (currentTime s) 0.1])"
  by (auto simp add: paramsTail_def Let_def feedbackLoop_timeline granular_timeline
        updateCrossfade_chain_timeline)

lemma playTrack_timeline_other:
  "p \<noteq> (Chain (tid t) MuteGain, PGain) \<Longrightarrow> p \<noteq> (Source (nextNode s), PPlaybackRate) \<Longrightarrow>
   timeline (playTrack t s) p = timeline s p"
  by (auto simp add: playTrack_def Let_def split: option.splits)

lemma stopTrack_timeline_other:
  "p \<noteq> (Chain i MuteGain, PGain) \<Longrightarrow> timeline (stopTrack i s) p = timeline s p"
  by (auto simp add: stopTrack_def Let_def split: option.splits)

lemma transport_timeline_other:
  "p \<noteq> (Chain (tid t) MuteGain, PGain) \<Longrightarrow> p \<noteq> (Source (nextNode s), PPlaybackRate) \<Longrightarrow>
   timeline (transport t s) p = timeline s p"
  by (simp add: transport_def playTrack_timeline_other stopTrack_timeline_other split: option.splits)

lemma updateTrackEQ_timeline_other:
  "r \<noteq> EqLow \<Longrightarrow> r \<noteq> EqMid \<Longrightarrow> r \<noteq> EqHigh \<Longrightarrow>
   timeline (updateTrackEQ t s) (Chain j r, pn) = timeline s (Chain j r, pn)"
  by (simp add: updateTrackEQ_def Let_def split: option.splits)

lemma panPitch_timeline_other:
  "r \<noteq> Panner \<Longrightarrow> timeline (panPitch t s) (Chain j r, pn) = timeline s (Chain j r, pn)"
  by (auto simp add: panPitch_def pitchParam_def Let_def split: option.splits)

lemma paramsHead_mute_timeline:
  "timeline (paramsHead t a s) (Chain j MuteGain, PGain) =
     (if j = tid t
      then timeline (transport t s) (Chain j MuteGain, PGain)
           @ [SetTargetAtTime (if isAudible t a then 1 else 0) (currentTime s) 0.02]
      else timeline s (Chain j MuteGain, PGain))"
  by (simp add: paramsHead_def Let_def updateTrackEQ_timeline_other panPitch_timeline_other
      volumeMute_def transport_timeline_other)

lemma paramsHead_feedback_timeline:
  assumes "r = FeedbackGain \<or> r = FeedbackFMGain"
  shows "timeline (paramsHead t a s) (Chain j r, pn) = timeline s (Chain j r, pn)"
  using assms
  by (auto simp add: paramsHead_def Let_def updateTrackEQ_timeline_other panPitch_timeline_other
      volumeMute_def transport_timeline_other)

lemma updateTrackParams_cases:
  assumes "updateTrackParams t mv a sid rnd s = Inr s'"
  obtains "tracks s (tid t) = None" "s' = s"
  | n s1 s2 where "tracks s (tid t) = Some n"
      "updateTrackLFOs t (paramsHead t a s) = Inr s1"
      "updateTrackDrift t rnd s1 = Inr s2" "s' = paramsTail t s2"
  using assms by (auto simp add: updateTrackParams_def split: option.splits sum.splits)

lemma updateTrackParams_ok:
  assumes "tracks s (tid t) = Some n" "nodes_ok n"
  shows "\<exists>s'. updateTrackParams t mv a sid rnd s = Inr s'"
proof -
  let ?h = "paramsHead t a s"
  have "fieldOf lfoPart ?h (tid t) = fieldOf lfoPart s (tid t)"
       "fieldOf driftPart ?h (tid t) = fieldOf driftPart s (tid t)" by simp_all
  from fieldOf_SomeD[OF this(1) assms(1)] fieldOf_SomeD[OF this(2) assms(1)]
  obtain nh where nh: "tracks ?h (tid t) = Some nh" "lfoPart nh = lfoPart n" "driftPart nh = driftPart n"
    by auto
  then have okh: "nodes_ok nh" using assms(2) nodes_ok_cong[of nh n] by simp
  then have "\<And>slot. get_osc slot nh \<noteq> None \<longrightarrow> get_gain slot nh \<noteq> None"
    unfolding nodes_ok_slots by blast
  from updateTrackLFOs_run[OF nh(1) this] obtain s1 where s1: "updateTrackLFOs t ?h = Inr s1"
    by metis
  from fieldOf_SomeD[OF updateTrackLFOs_frame(2)[OF s1] nh(1)]
  obtain n1 where n1: "tracks s1 (tid t) = Some n1" "driftPart n1 = driftPart nh" by auto
  with okh have "driftLfo n1 \<noteq> None \<longrightarrow> driftGain n1 \<noteq> None"
    by (simp add: nodes_ok_def driftPart_def)
  from updateTrackDrift_ok[OF n1(1) this] obtain s2 where "updateTrackDrift t rnd s1 = Inr s2"
    by blast
  with s1 assms(1) show ?thesis by (simp add: updateTrackParams_def)
qed

lemma updateTrackParams_frame:
  assumes "updateTrackParams t mv a sid rnd s = Inr s'"
  shows "(tracks s' j = None) = (tracks s j = None)"
    and "currentTime s' = currentTime s" and "noiseSource s' = noiseSource s"
    and "trackIds s' = trackIds s"
  using assms
  by (elim updateTrackParams_cases;
      simp add: updateTrackLFOs_frame updateTrackDrift_frame)+

lemma updateTrackParams_other_parts:
  assumes "updateTrackParams t mv a sid rnd s = Inr s'" "j \<noteq> tid t"
  shows "fieldOf lfoPart s' j = fieldOf lfoPart s j"
    and "fieldOf driftPart s' j = fieldOf driftPart s j"
  using assms
  by (elim updateTrackParams_cases;
      simp add: updateTrackLFOs_frame updateTrackDrift_frame updateTrackLFOs_other)+

lemma updateTrackParams_own_ok:
  assumes "updateTrackParams t mv a sid rnd s = Inr s'" "tracks s (tid t) = Some n" "nodes_ok n"
  shows "\<exists>n'. tracks s' (tid t) = Some n' \<and> nodes_ok n'"
  using assms(1)
proof (cases rule: updateTrackParams_cases)
  case 1 with assms(2) show ?thesis by simp
next
  case (2 m s1 s2)
  let ?h = "paramsHead t a s"
  obtain nh where nh: "tracks ?h (tid t) = Some nh"
    using fieldOf_SomeD[OF paramsHead_parts(1)[of t a s "tid t"] assms(2)] by auto
  obtain n1 where n1: "tracks s1 (tid t) = Some n1"
    using fieldOf_SomeD[OF updateTrackLFOs_frame(1)[OF 2(2), of "tid t"] nh] by auto
  have lfo1: "get_osc slot n1 \<noteq> None \<longrightarrow> get_gain slot n1 \<noteq> None" for slot
    using updateTrackLFOs_slot[OF 2(2) nh, of slot] n1 by auto
  have d1: "driftPart n1 = driftPart n"
    using updateTrackLFOs_frame(2)[OF 2(2), of "tid t"] paramsHead_parts(2)[of t a s "tid t"]
      n1 nh assms(2) by (simp add: fieldOf_def)
  from updateTrackDrift_post[OF 2(3) n1] obtain n2 where n2: "tracks s2 (tid t) = Some n2"
    "driftPart n2 = driftPart n1 \<or> driftPart n2 = (Some (nextNode s1), Some (Suc (nextNode s1)))"
    by auto
  have l2: "lfoPart n2 = lfoPart n1"
    using updateTrackDrift_frame(2)[OF 2(3), of "tid t"] n1 n2 by (simp add: fieldOf_def)
  have "driftLfo n2 \<noteq> None \<longrightarrow> driftGain n2 \<noteq> None"
    using n2(2) d1 assms(3) by (auto simp add: driftPart_def nodes_ok_def)
  moreover have "get_osc slot n2 \<noteq> None \<longrightarrow> get_gain slot n2 \<noteq> None" for slot
    using lfo1[of slot] l2 unfolding lfoPart_eq_iff by simp
  ultimately have ok2: "nodes_ok n2" unfolding nodes_ok_slots by blast
  from fieldOf_SomeD[OF paramsTail_parts(2)[of t s2 "tid t"] n2(1)]
       fieldOf_SomeD[OF paramsTail_parts(3)[of t s2 "tid t"] n2(1)]
  obtain n3 where n3: "tracks (paramsTail t s2) (tid t) = Some n3" "lfoPart n3 = lfoPart n2"
      "driftPart n3 = driftPart n2" by auto
  with ok2 nodes_ok_cong[of n3 n2] 2(4) show ?thesis by simp
qed

lemma updateTrackParams_engine_ok:
  assumes "updateTrackParams t mv a sid rnd s = Inr s'" "engine_ok s"
  shows "engine_ok s'"
  unfolding engine_ok_def
proof (intro allI impI)
  fix j n' assume n': "tracks s' j = Some n'"
  show "nodes_ok n'"
  proof (cases "j = tid t")
    case True
    from n' updateTrackParams_frame(1)[OF assms(1), of j] obtain n where n: "tracks s j = Some n"
      by auto
    with assms(2) have "nodes_ok n" by (simp add: engine_ok_def)
    from updateTrackParams_own_ok[OF assms(1) n[unfolded True] this] n' True show ?thesis by simp
  next
    case False
    from n' updateTrackParams_frame(1)[OF assms(1), of j] obtain n where n: "tracks s j = Some n"
      by auto
    from updateTrackParams_other_parts[OF assms(1) False] n n'
    have "lfoPart n' = lfoPart n" "driftPart n' = driftPart n" by (simp_all add: fieldOf_def)
    then have "nodes_ok n' = nodes_ok n" by (rule nodes_ok_cong)
    with n assms(2) show ?thesis by (simp add: engine_ok_def)
  qed
qed

lemma updateTrackParams_mute:
  assumes "updateTrackParams t mv a sid rnd s = Inr s'"
  shows "timeline s' (Chain j MuteGain, PGain) =
     (if j = tid t \<and> tracks s (tid t) \<noteq> None
      then timeline (transport t s) (Chain j MuteGain, PGain)
           @ [SetTargetAtTime (if isAudible t a then 1 else 0) (currentTime s) 0.02]
      else timeline s (Chain j MuteGain, PGain))"
  using assms
  by (elim updateTrackParams_cases)
     (simp_all add: paramsTail_mute_timeline updateTrackDrift_chain_timeline
        updateTrackLFOs_chain_timeline paramsHead_mute_timeline)

lemma updateTrackParams_feedback:
  assumes "updateTrackParams t mv a sid rnd s = Inr s'" "tracks s (tid t) \<noteq> None"
  shows "timeline s' (Chain (tid t) FeedbackGain, PGain) =
     timeline s (Chain (tid t) FeedbackGain, PGain)
     @ (if targetId t \<noteq> - 1
        then (if tracks s (targetId t) = None then []
              else [SetTargetAtTime (feedbackAmt t) (currentTime s) 0.1])
        else [SetTargetAtTime 0 (currentTime s) 0.1])"
   and "timeline s' (Chain (tid t) FeedbackFMGain, PGain) =
     timeline s (Chain (tid t) FeedbackFMGain, PGain)
     @ (if targetId t \<noteq> - 1
        then (if tracks s (targetId t) = None then []
              else [SetTargetAtTime (fmAmt t) (currentTime s) 0.1])
        else [SetTargetAtTime 0 (currentTime s) 0.1])"
  using assms
  by (elim updateTrackParams_cases;
      simp add: paramsTail_feedback_timeline updateTrackDrift_chain_timeline
        updateTrackLFOs_chain_timeline paramsHead_feedback_timeline
        updateTrackDrift_frame updateTrackLFOs_frame)+

lemma initChain_fields [simp]:
  "ctxState (initChain t s) = ctxState s" "currentTime (initChain t s) = currentTime s"
  "nextNode (initChain t s) = nextNode s" "noiseSource (initChain t s) = noiseSource s"
  "tracks (initChain t s) = (tracks s)(tid t \<mapsto> emptyNodes)"
  "trackIds (initChain t s) = trackIds s @ [tid t]"
  "started (initChain t s) = started s"
  "stopped (initChain t s) = stopped s" "timers (initChain t s) = timers s"
  by (simp_all add: initChain_def Let_def split: option.splits)

lemma nodes_ok_emptyNodes [simp]: "nodes_ok emptyNodes"
  by (simp add: nodes_ok_def emptyNodes_def)

lemma emptyNodes_fields [simp]:
  "source emptyNodes = None" "get_osc slot emptyNodes = None" "get_gain slot emptyNodes = None"
  "driftLfo emptyNodes = None" "driftGain emptyNodes = None"
  "fadeOsc emptyNodes = None" "fadeGainOsc emptyNodes = None"
  by (cases slot; simp add: emptyNodes_def)+

lemma manageLFO_idle:
  "tracks s i = Some n \<Longrightarrow> get_osc slot n = None \<Longrightarrow> \<not> enabled c \<Longrightarrow>
   manageLFO slot c i tp d s = Inr s"
  by (simp add: manageLFO_def)

lemma updateTrackLFOs_idle:
  assumes "tracks s (tid t) = Some n" "\<And>slot. get_osc slot n = None"
    "\<not> enabled (lfoVol t)" "\<not> enabled (lfoPan t)" "\<not> enabled (lfoPitch t)"
  shows "updateTrackLFOs t s = Inr s"
  using assms by (simp add: updateTrackLFOs_def manageLFO_idle)

lemma updateTrackDrift_idle:
  "tracks s (tid t) = Some n \<Longrightarrow> driftLfo n = None \<Longrightarrow> \<not> driftEnabled t \<Longrightarrow>
   updateTrackDrift t r s = Inr s"
  by (simp add: updateTrackDrift_def)

lemma initTrack_plain:
  assumes "tracks s (tid t) = None"
    "\<not> enabled (lfoVol t)" "\<not> enabled (lfoPan t)" "\<not> enabled (lfoPitch t)" "\<not> driftEnabled t"
  shows "initTrack t r s = Inr (updateTrackEQ t (initChain t s))"
proof -
  have n: "tracks (initChain t s) (tid t) = Some emptyNodes" by simp
  have "updateTrackLFOs t (initChain t s) = Inr (initChain t s)"
    by (rule updateTrackLFOs_idle[OF n]) (simp_all add: assms)
  moreover have "updateTrackDrift t r (initChain t s) = Inr (initChain t s)"
    by (rule updateTrackDrift_idle[OF n]) (simp_all add: assms)
  ultimately show ?thesis using assms(1) by (simp add: initTrack_def)
qed

lemma createDefaultTrack_fields [simp]:
  "tid (createDefaultTrack i) = i" "buffer (createDefaultTrack i) = None"
  "isPlaying (createDefaultTrack i) = False" "isMuted (createDefaultTrack i) = False"
  "isSolo (createDefaultTrack i) = False"
  "enabled (lfoVol (createDefaultTrack i)) = False" "enabled (lfoPan (createDefaultTrack i)) = False"
  "enabled (lfoPitch (createDefaultTrack i)) = False" "driftEnabled (createDefaultTrack i) = False"
  "linkNext (createDefaultTrack i) = False" "feedbackSend (createDefaultTrack i) = 0"
  "feedbackTargetId (createDefaultTrack i) = Some (jsrem (i + 1) 8)"
  "eqLow (createDefaultTrack i) = 0.5" "eqMid (createDefaultTrack i) = 0.5"
  "eqHigh (createDefaultTrack i) = 0.5"
  by (simp_all add: createDefaultTrack_def)

lemma AudioEngine_new_fields [simp]:
  "tracks (AudioEngine_new st) = (\<lambda>i. None)" "ctxState (AudioEngine_new st) = st"
  "currentTime (AudioEngine_new st) = 0" "timers (AudioEngine_new st) = []"
  "noiseSource (AudioEngine_new st) = Some 0" "nextNode (AudioEngine_new st) = 1"
  "trackIds (AudioEngine_new st) = []" "started (AudioEngine_new st) = [Source 0]"
  "stopped (AudioEngine_new st) = []"
  by (simp_all add: AudioEngine_new_def startGlobalNoise_def Let_def)

lemma demoEngine_tracks [simp]:
  "tracks demoEngine = [0 \<mapsto> emptyNodes, 1 \<mapsto> emptyNodes]"
  by (simp add: demoEngine_def)


lemma engine_ok_demoEngine [simp]: "engine_ok demoEngine"
  by (simp add: engine_ok_def)

lemma jsrem_nonneg: "0 \<le> a \<Longrightarrow> 0 < b \<Longrightarrow> jsrem a b = a mod b"
  by (cases "a = 0") (simp_all add: jsrem_def)

lemma updateTrackEQ_driven:
  assumes "tracks s (tid t) \<noteq> None"
  shows "driven_to (Chain (tid t) EqLow, PGain) (updateTrackEQ t s) = Some (mapGain (eqLow t))"
    and "driven_to (Chain (tid t) EqMid, PGain) (updateTrackEQ t s) = Some (mapGain (eqMid t))"
    and "driven_to (Chain (tid t) EqHigh, PGain) (updateTrackEQ t s) = Some (mapGain (eqHigh t))"
  using assms by (auto simp add: updateTrackEQ_def Let_def driven_to_def)

text \<open>
  C1. For every slider value \<open>v\<close> the band gain that \<open>updateTrackEQ\<close> schedules is
  \<open>-40 + 80 v\<close> dB up to \<open>v = 0.5\<close> and \<open>(v - 0.5) 24\<close> dB above it, so 0 maps to -40 dB, 0.5
  to 0 dB and 1 to +12 dB and the slope changes from 80 to 24 at 0.5; the same mapping is
  applied to the low, mid and high band of a track that is in the table.
\<close>

theorem eq_mapping_piecewise_linear:
  assumes "tracks s (tid t) \<noteq> None"
  shows "mapGain v = (if v \<le> 0.5 then - 40 + 80 * v else (v - 0.5) * 24)
         \<and> mapGain 0 = - 40 \<and> mapGain 0.5 = 0 \<and> mapGain 1 = 12
         \<and> driven_to (Chain (tid t) EqLow, PGain) (updateTrackEQ t s) = Some (mapGain (eqLow t))
         \<and> driven_to (Chain (tid t) EqMid, PGain) (updateTrackEQ t s) = Some (mapGain (eqMid t))
         \<and> driven_to (Chain (tid t) EqHigh, PGain) (updateTrackEQ t s) = Some (mapGain (eqHigh t))"
  using updateTrackEQ_driven[OF assms] by (simp add: mapGain_def)

theorem eq_mapping_piecewise_linear_witness:
  "tracks demoEngine (tid (createDefaultTrack 0)) \<noteq> None
   \<and> mapGain (1 / 4) = - 20 \<and> mapGain (3 / 4) = 6
   \<and> driven_to (Chain 0 EqLow, PGain) (updateTrackEQ (createDefaultTrack 0) demoEngine) = Some 0
   \<and> driven_to (Chain 0 EqMid, PGain) (updateTrackEQ (createDefaultTrack 0) demoEngine) = Some 0
   \<and> driven_to (Chain 0 EqHigh, PGain) (updateTrackEQ (createDefaultTrack 0) demoEngine) = Some 0"
  using eq_mapping_piecewise_linear[of demoEngine "createDefaultTrack 0" "1 / 4"]
        eq_mapping_piecewise_linear[of demoEngine "createDefaultTrack 0" "3 / 4"]
  by simp

text \<open>
  C2. When \<open>updateTrackParams\<close> applies a snapshot of a track in the table whose resolved
  feedback target is not -1 and is in the table, it returns, the first feedback-send gain is
  retargeted to \<open>feedbackSend * 3000\<close>, and the second to 0 for \<open>feedbackSend \<le> 0.5\<close> and to
  \<open>(feedbackSend - 0.5) * 4\<close> above, which is 2 at \<open>feedbackSend = 1\<close>.
\<close>

theorem feedback_amounts:
  assumes "tracks s (tid t) = Some n" and "nodes_ok n"
    and "targetId t \<noteq> - 1" and "tracks s (targetId t) \<noteq> None"
  shows "\<exists>s'. updateTrackParams t mv a sid rnd s = Inr s'
           \<and> driven_to (Chain (tid t) FeedbackGain, PGain) s' = Some (feedbackSend t * 3000)
           \<and> driven_to (Chain (tid t) FeedbackFMGain, PGain) s'
               = Some (if feedbackSend t \<le> 0.5 then 0 else (feedbackSend t - 0.5) * 4)
           \<and> (feedbackSend t = 1 \<longrightarrow> driven_to (Chain (tid t) FeedbackFMGain, PGain) s' = Some 2)"
proof -
  from updateTrackParams_ok[OF assms(1,2)] obtain s' where
    s': "updateTrackParams t mv a sid rnd s = Inr s'" by blast
  have t: "tracks s (tid t) \<noteq> None" using assms(1) by simp
  have "driven_to (Chain (tid t) FeedbackGain, PGain) s' = Some (feedbackSend t * 3000)"
    using updateTrackParams_feedback(1)[OF s' t] assms(3,4)
    by (simp add: driven_to_def feedbackAmt_def)
  moreover have "driven_to (Chain (tid t) FeedbackFMGain, PGain) s'
      = Some (if feedbackSend t \<le> 0.5 then 0 else (feedbackSend t - 0.5) * 4)"
    using updateTrackParams_feedback(2)[OF s' t] assms(3,4)
    by (simp add: driven_to_def fmAmt_def)
  ultimately show ?thesis using s' by simp
qed

theorem feedback_amounts_witness:
  "tracks demoEngine (tid ((createDefaultTrack 0)\<lparr>feedbackSend := 7 / 10\<rparr>)) = Some emptyNodes
   \<and> nodes_ok emptyNodes
   \<and> targetId ((createDefaultTrack 0)\<lparr>feedbackSend := 7 / 10\<rparr>) \<noteq> - 1
   \<and> tracks demoEngine (targetId ((createDefaultTrack 0)\<lparr>feedbackSend := 7 / 10\<rparr>)) \<noteq> None
   \<and> (\<exists>s'. updateTrackParams ((createDefaultTrack 0)\<lparr>feedbackSend := 7 / 10\<rparr>) (4 / 5) False None 0
               demoEngine = Inr s'
          \<and> driven_to (Chain 0 FeedbackGain, PGain) s' = Some 2100
          \<and> driven_to (Chain 0 FeedbackFMGain, PGain) s' = Some (4 / 5))"
  using feedback_amounts[of demoEngine "(createDefaultTrack 0)\<lparr>feedbackSend := 7 / 10\<rparr>"
          emptyNodes "4 / 5" False None 0]
  by (simp add: targetId_def jsrem_def)

text \<open>
  C8. \<open>stopTrack\<close> on a track that is not in the table, or whose active source is null,
  returns the engine state it was given, and a second \<open>stopTrack\<close> right after a first one
  changes nothing.
\<close>

theorem stopTrack_idempotent:
  "((case tracks s i of None \<Rightarrow> True | Some n \<Rightarrow> source n = None) \<longrightarrow> stopTrack i s = s)
   \<and> stopTrack i (stopTrack i s) = stopTrack i s"
proof -
  have a: "(case tracks s i of None \<Rightarrow> True | Some n \<Rightarrow> source n = None) \<Longrightarrow> stopTrack i s = s" for s
    by (simp add: stopTrack_def split: option.splits)
  have "case tracks (stopTrack i s) i of None \<Rightarrow> True | Some n \<Rightarrow> source n = None"
    by (simp add: stopTrack_tracks split: option.splits)
  from a[OF this] a show ?thesis by blast
qed

theorem stopTrack_idempotent_witness:
  "(case tracks demoEngine 0 of None \<Rightarrow> True | Some n \<Rightarrow> source n = None)
   \<and> stopTrack 0 demoEngine = demoEngine
   \<and> (case tracks demoEngine 5 of None \<Rightarrow> True | Some n \<Rightarrow> source n = None)
   \<and> stopTrack 5 demoEngine = demoEngine
   \<and> stopTrack 0 (stopTrack 0 demoEngine) = stopTrack 0 demoEngine"
  using stopTrack_idempotent[of demoEngine 0] stopTrack_idempotent[of demoEngine 5]
  by simp

lemma isAudible_eq: "isAudible t a = (\<not> isMuted t \<and> \<not> (a \<and> \<not> isSolo t))"
  by (simp add: isAudible_def)

lemma updateTrackParams_mute_driven:
  assumes "updateTrackParams t mv a sid rnd s = Inr s'" "tracks s (tid t) \<noteq> None"
  shows "driven_to (Chain (tid t) MuteGain, PGain) s'
           = Some (if \<not> isMuted t \<and> \<not> (a \<and> \<not> isSolo t) then 1 else 0)"
  using updateTrackParams_mute[OF assms(1), of "tid t"] assms(2)
  by (simp add: driven_to_def isAudible_eq)

lemma updateAll_mute:
  assumes "engine_ok s" "\<forall>x\<in>set xs. tracks s (tid (fst x)) \<noteq> None"
    "distinct (map (tid \<circ> fst) xs)"
  shows "\<exists>s'. updateAll xs mv a sid s = Inr s' \<and> engine_ok s'
           \<and> (\<forall>j. (tracks s' j = None) = (tracks s j = None))
           \<and> (\<forall>j. j \<notin> (tid \<circ> fst) ` set xs \<longrightarrow>
                 timeline s' (Chain j MuteGain, PGain) = timeline s (Chain j MuteGain, PGain))
           \<and> (\<forall>x\<in>set xs. driven_to (Chain (tid (fst x)) MuteGain, PGain) s'
                 = Some (if \<not> isMuted (fst x) \<and> \<not> (a \<and> \<not> isSolo (fst x)) then 1 else 0))"
  using assms
proof (induction xs arbitrary: s)
  case Nil
  then show ?case by simp
next
  case (Cons x xs)
  obtain t rnd where x: "x = (t, rnd)" by (cases x)
  from Cons.prems(2) x obtain n where n: "tracks s (tid t) = Some n" by auto
  with Cons.prems(1) have "nodes_ok n" by (simp add: engine_ok_def)
  from updateTrackParams_ok[OF n this] obtain s1 where
    s1: "updateTrackParams t mv a sid rnd s = Inr s1" by blast
  have ok1: "engine_ok s1" by (rule updateTrackParams_engine_ok[OF s1 Cons.prems(1)])
  have dom1: "(tracks s1 j = None) = (tracks s j = None)" for j
    by (rule updateTrackParams_frame(1)[OF s1])
  have pre: "\<forall>y\<in>set xs. tracks s1 (tid (fst y)) \<noteq> None"
    using Cons.prems(2) dom1 by simp
  have dist: "distinct (map (tid \<circ> fst) xs)" "tid t \<notin> (tid \<circ> fst) ` set xs"
    using Cons.prems(3) x by (simp_all add: comp_def)
  from Cons.IH[OF ok1 pre dist(1)] obtain s' where s':
    "updateAll xs mv a sid s1 = Inr s'" "engine_ok s'"
    "\<forall>j. (tracks s' j = None) = (tracks s1 j = None)"
    "\<forall>j. j \<notin> (tid \<circ> fst) ` set xs \<longrightarrow>
        timeline s' (Chain j MuteGain, PGain) = timeline s1 (Chain j MuteGain, PGain)"
    "\<forall>y\<in>set xs. driven_to (Chain (tid (fst y)) MuteGain, PGain) s'
        = Some (if \<not> isMuted (fst y) \<and> \<not> (a \<and> \<not> isSolo (fst y)) then 1 else 0)"
    by blast
  have own: "driven_to (Chain (tid t) MuteGain, PGain) s'
        = Some (if \<not> isMuted t \<and> \<not> (a \<and> \<not> isSolo t) then 1 else 0)"
  proof -
    have "timeline s' (Chain (tid t) MuteGain, PGain) = timeline s1 (Chain (tid t) MuteGain, PGain)"
      using s'(4) dist(2) by blast
    then have "driven_to (Chain (tid t) MuteGain, PGain) s' = driven_to (Chain (tid t) MuteGain, PGain) s1"
      by (simp add: driven_to_def)
    with updateTrackParams_mute_driven[OF s1] n show ?thesis by simp
  qed
  have other: "timeline s' (Chain j MuteGain, PGain) = timeline s (Chain j MuteGain, PGain)"
    if "j \<notin> (tid \<circ> fst) ` set (x # xs)" for j
  proof -
    from that x have j: "j \<noteq> tid t" "j \<notin> (tid \<circ> fst) ` set xs" by auto
    from updateTrackParams_mute[OF s1, of j] j(1)
    have "timeline s1 (Chain j MuteGain, PGain) = timeline s (Chain j MuteGain, PGain)" by simp
    with s'(4) j(2) show ?thesis by simp
  qed
  have "updateAll (x # xs) mv a sid s = Inr s'" using s1 s'(1) x by simp
  moreover have "\<forall>j. (tracks s' j = None) = (tracks s j = None)" using s'(3) dom1 by simp
  moreover have "\<forall>y\<in>set (x # xs). driven_to (Chain (tid (fst y)) MuteGain, PGain) s'
        = Some (if \<not> isMuted (fst y) \<and> \<not> (a \<and> \<not> isSolo (fst y)) then 1 else 0)"
    using own s'(5) x by simp
  ultimately show ?case using s'(2) other by blast
qed

text \<open>
  C3. \<open>updateTrackParams\<close> on a track of the table returns and drives the track's mute gate
  to 1 exactly when the track is not muted and not silenced by another track's solo, and to
  0 otherwise. When the caller applies the snapshots of several tracks one after the other,
  every track ends with that target whatever the order of the snapshots.
\<close>

theorem mute_solo_resolution:
  assumes "engine_ok s" and "\<forall>x\<in>set xs. tracks s (tid (fst x)) \<noteq> None"
    and "distinct (map (tid \<circ> fst) xs)"
    and "set ys = set xs" and "distinct (map (tid \<circ> fst) ys)"
  shows "(\<forall>x\<in>set xs. \<exists>s'. updateTrackParams (fst x) mv a sid (snd x) s = Inr s'
            \<and> driven_to (Chain (tid (fst x)) MuteGain, PGain) s'
                = Some (if \<not> isMuted (fst x) \<and> \<not> (a \<and> \<not> isSolo (fst x)) then 1 else 0))
         \<and> (\<exists>s1 s2. updateAll xs mv a sid s = Inr s1 \<and> updateAll ys mv a sid s = Inr s2
            \<and> (\<forall>x\<in>set xs.
                  driven_to (Chain (tid (fst x)) MuteGain, PGain) s1
                    = Some (if \<not> isMuted (fst x) \<and> \<not> (a \<and> \<not> isSolo (fst x)) then 1 else 0)
                  \<and> driven_to (Chain (tid (fst x)) MuteGain, PGain) s2
                    = driven_to (Chain (tid (fst x)) MuteGain, PGain) s1))"
proof
  show "\<forall>x\<in>set xs. \<exists>s'. updateTrackParams (fst x) mv a sid (snd x) s = Inr s'
            \<and> driven_to (Chain (tid (fst x)) MuteGain, PGain) s'
                = Some (if \<not> isMuted (fst x) \<and> \<not> (a \<and> \<not> isSolo (fst x)) then 1 else 0)"
  proof
    fix x assume "x \<in> set xs"
    with assms(2) obtain n where n: "tracks s (tid (fst x)) = Some n" by auto
    with assms(1) have "nodes_ok n" by (simp add: engine_ok_def)
    from updateTrackParams_ok[OF n this] obtain s' where
      s': "updateTrackParams (fst x) mv a sid (snd x) s = Inr s'" by blast
    from updateTrackParams_mute_driven[OF s'] n s'
    show "\<exists>s'. updateTrackParams (fst x) mv a sid (snd x) s = Inr s'
            \<and> driven_to (Chain (tid (fst x)) MuteGain, PGain) s'
                = Some (if \<not> isMuted (fst x) \<and> \<not> (a \<and> \<not> isSolo (fst x)) then 1 else 0)"
      by simp
  qed
next
  from updateAll_mute[OF assms(1,2,3), of mv a sid] obtain s1 where s1:
    "updateAll xs mv a sid s = Inr s1"
    "\<forall>x\<in>set xs. driven_to (Chain (tid (fst x)) MuteGain, PGain) s1
        = Some (if \<not> isMuted (fst x) \<and> \<not> (a \<and> \<not> isSolo (fst x)) then 1 else 0)"
    by blast
  have "\<forall>x\<in>set ys. tracks s (tid (fst x)) \<noteq> None" using assms(2,4) by simp
  from updateAll_mute[OF assms(1) this assms(5), of mv a sid] obtain s2 where s2:
    "updateAll ys mv a sid s = Inr s2"
    "\<forall>x\<in>set ys. driven_to (Chain (tid (fst x)) MuteGain, PGain) s2
        = Some (if \<not> isMuted (fst x) \<and> \<not> (a \<and> \<not> isSolo (fst x)) then 1 else 0)"
    by blast
  from s1 s2 assms(4)
  show "\<exists>s1 s2. updateAll xs mv a sid s = Inr s1 \<and> updateAll ys mv a sid s = Inr s2
            \<and> (\<forall>x\<in>set xs.
                  driven_to (Chain (tid (fst x)) MuteGain, PGain) s1
                    = Some (if \<not> isMuted (fst x) \<and> \<not> (a \<and> \<not> isSolo (fst x)) then 1 else 0)
                  \<and> driven_to (Chain (tid (fst x)) MuteGain, PGain) s2
                    = driven_to (Chain (tid (fst x)) MuteGain, PGain) s1)"
    by auto
qed

theorem mute_solo_resolution_witness:
  "engine_ok demoEngine
   \<and> tracks demoEngine (tid ((createDefaultTrack 0)\<lparr>isMuted := True\<rparr>)) \<noteq> None
   \<and> tracks demoEngine (tid ((createDefaultTrack 1)\<lparr>isSolo := True\<rparr>)) \<noteq> None
   \<and> distinct (map (tid \<circ> fst)
        [((createDefaultTrack 0)\<lparr>isMuted := True\<rparr>, 0), ((createDefaultTrack 1)\<lparr>isSolo := True\<rparr>, 0::real)])
   \<and> set [((createDefaultTrack 1)\<lparr>isSolo := True\<rparr>, 0), ((createDefaultTrack 0)\<lparr>isMuted := True\<rparr>, 0::real)]
       = set [((createDefaultTrack 0)\<lparr>isMuted := True\<rparr>, 0), ((createDefaultTrack 1)\<lparr>isSolo := True\<rparr>, 0)]
   \<and> distinct (map (tid \<circ> fst)
        [((createDefaultTrack 1)\<lparr>isSolo := True\<rparr>, 0), ((createDefaultTrack 0)\<lparr>isMuted := True\<rparr>, 0::real)])
   \<and> (\<exists>s1 s2.
         updateAll [((createDefaultTrack 0)\<lparr>isMuted := True\<rparr>, 0), ((createDefaultTrack 1)\<lparr>isSolo := True\<rparr>, 0)]
           (4 / 5) True (Some 1) demoEngine = Inr s1
       \<and> updateAll [((createDefaultTrack 1)\<lparr>isSolo := True\<rparr>, 0), ((createDefaultTrack 0)\<lparr>isMuted := True\<rparr>, 0)]
           (4 / 5) True (Some 1) demoEngine = Inr s2
       \<and> driven_to (Chain 0 MuteGain, PGain) s1 = Some 0
       \<and> driven_to (Chain 1 MuteGain, PGain) s1 = Some 1
       \<and> driven_to (Chain 0 MuteGain, PGain) s2 = Some 0
       \<and> driven_to (Chain 1 MuteGain, PGain) s2 = Some 1)"
  using mute_solo_resolution[of demoEngine
          "[((createDefaultTrack 0)\<lparr>isMuted := True\<rparr>, 0), ((createDefaultTrack 1)\<lparr>isSolo := True\<rparr>, 0)]"
          "[((createDefaultTrack 1)\<lparr>isSolo := True\<rparr>, 0), ((createDefaultTrack 0)\<lparr>isMuted := True\<rparr>, 0)]"
          "4 / 5" True "Some 1"]
  by (auto simp add: insert_commute simp del: updateAll.simps)

lemma out_edges_connect_other [simp]: "m \<noteq> n \<Longrightarrow> out_edges n (connect m d s) = out_edges n s"
  by (simp add: out_edges_def List.insert_def)

lemma out_edges_connect_same:
  "out_edges n (connect n d s) = (if (n, d) \<in> set (edges s) then out_edges n s else d # out_edges n s)"
  by (simp add: out_edges_def List.insert_def)

lemma out_edges_disconnect_other [simp]:
  "m \<noteq> n \<Longrightarrow> out_edges n (disconnect m s) = out_edges n s"
proof -
  assume "m \<noteq> n"
  then have "filter (\<lambda>x. fst x \<noteq> m \<and> fst x = n) (edges s) = filter (\<lambda>e. fst e = n) (edges s)"
    by (intro filter_cong) auto
  then show ?thesis by (simp add: out_edges_def)
qed

lemma out_edges_disconnect_same [simp]: "out_edges n (disconnect n s) = []"
  by (simp add: out_edges_def)

lemma out_edges_empty_mem: "out_edges n s = [] \<Longrightarrow> (n, d) \<notin> set (edges s)"
  by (auto simp add: out_edges_def filter_empty_conv)

lemma out_edges_prims [simp]:
  "out_edges n (start m s) = out_edges n s" "out_edges n (stop m s) = out_edges n s"
  "out_edges n (alloc s) = out_edges n s" "out_edges n (assign p v s) = out_edges n s"
  "out_edges n (setValueAtTime p v t s) = out_edges n s"
  "out_edges n (setTargetAtTime p v t tc s) = out_edges n s"
  "out_edges n (cancelScheduledValues p t s) = out_edges n s"
  "out_edges n (setTimeout cb ms s) = out_edges n s"
  "out_edges n (resume s) = out_edges n s"
  "out_edges n (s\<lparr>tracks := tr\<rparr>) = out_edges n s"
  "out_edges n (s\<lparr>noiseSource := ns\<rparr>) = out_edges n s"
  "out_edges n (s\<lparr>trackIds := ti\<rparr>) = out_edges n s"
  "out_edges n (s\<lparr>currentTime := ct\<rparr>) = out_edges n s"
  "out_edges n (s\<lparr>timers := tm\<rparr>) = out_edges n s"
  by (simp_all add: out_edges_def)

lemma fb_out_manageLFO:
  "manageLFO slot c i tp d s = Inr s' \<Longrightarrow> out_edges (Chain j r) s' = out_edges (Chain j r) s"
  by (auto simp add: manageLFO_def Let_def
      split: option.splits if_splits)

lemma fb_out_updateTrackLFOs:
  "updateTrackLFOs t s = Inr s' \<Longrightarrow> out_edges (Chain j r) s' = out_edges (Chain j r) s"
  by (elim updateTrackLFOs_cases) (simp_all add: fb_out_manageLFO)

lemma fb_out_updateTrackDrift:
  "updateTrackDrift t rnd s = Inr s' \<Longrightarrow> out_edges (Chain j r) s' = out_edges (Chain j r) s"
  by (auto simp add: updateTrackDrift_def Let_def
      split: option.splits if_splits)

lemma fb_out_updateCrossfade:
  "out_edges (Chain j r) (updateCrossfade t s) = out_edges (Chain j r) s"
  by (auto simp add: updateCrossfade_def Let_def
      split: option.splits if_splits)

lemma fb_out_granular: "out_edges n (granular t s) = out_edges n s"
  by (simp add: granular_def Let_def)

lemma fb_out_updateTrackEQ: "out_edges n (updateTrackEQ t s) = out_edges n s"
  by (simp add: out_edges_def)

lemma fb_out_playTrack:
  "r \<noteq> SprayGain \<Longrightarrow> out_edges (Chain j r) (playTrack t s) = out_edges (Chain j r) s"
  by (auto simp add: playTrack_def Let_def split: option.splits)

lemma fb_out_stopTrack:
  "r \<noteq> SprayGain \<Longrightarrow> out_edges (Chain j r) (stopTrack i s) = out_edges (Chain j r) s"
  by (auto simp add: stopTrack_def Let_def
      split: option.splits)

lemma fb_out_transport:
  "r \<noteq> SprayGain \<Longrightarrow> out_edges (Chain j r) (transport t s) = out_edges (Chain j r) s"
  by (simp add: transport_def fb_out_playTrack fb_out_stopTrack split: option.splits)

lemma fb_out_paramsHead:
  "r \<noteq> SprayGain \<Longrightarrow> out_edges (Chain j r) (paramsHead t a s) = out_edges (Chain j r) s"
proof -
  assume r: "r \<noteq> SprayGain"
  have "out_edges (Chain j r) (paramsHead t a s) = out_edges (Chain j r) (transport t s)"
    by (simp add: paramsHead_def Let_def out_edges_def)
  with r show ?thesis by (simp add: fb_out_transport)
qed

lemma fb_out_feedbackLoop_other:
  "n \<noteq> Chain (tid t) FeedbackGain \<Longrightarrow> n \<noteq> Chain (tid t) FeedbackFMGain \<Longrightarrow>
   out_edges n (feedbackLoop t s) = out_edges n s"
  by (auto simp add: feedbackLoop_def Let_def
      split: option.splits)

text \<open>The connections section 7 leaves on the two sends, whatever was connected before.\<close>

lemma fb_out_feedbackLoop_own:
  "out_edges (Chain (tid t) FeedbackGain) (feedbackLoop t s) =
     (if targetId t \<noteq> - 1 \<and> tracks s (targetId t) \<noteq> None \<and> feedbackSend t > 0.01
      then [ToParam (Chain (targetId t) EqMid, PFrequency)] else [])"
  "out_edges (Chain (tid t) FeedbackFMGain) (feedbackLoop t s) =
     (if targetId t \<noteq> - 1 \<and> feedbackSend t > 0.01 \<and> fmAmt t > 0
      then (case fieldOf source s (targetId t) of
              Some (Some src) \<Rightarrow> [ToParam (Source src, PPlaybackRate)]
            | _ \<Rightarrow> [])
      else [])"
  by (auto simp add: feedbackLoop_def Let_def out_edges_connect_same out_edges_empty_mem fieldOf_def
      split: option.splits)

lemma playTrack_parts [simp]:
  "fieldOf lfoPart (playTrack t s) j = fieldOf lfoPart s j"
  "fieldOf driftPart (playTrack t s) j = fieldOf driftPart s j"
  "fieldOf fadePart (playTrack t s) j = fieldOf fadePart s j"
  "(tracks (playTrack t s) j = None) = (tracks s j = None)"
  by (simp_all add: fieldOf_def playTrack_tracks split: option.splits)

lemma stopTrack_parts [simp]:
  "fieldOf lfoPart (stopTrack i s) j = fieldOf lfoPart s j"
  "fieldOf driftPart (stopTrack i s) j = fieldOf driftPart s j"
  "fieldOf fadePart (stopTrack i s) j = fieldOf fadePart s j"
  "(tracks (stopTrack i s) j = None) = (tracks s j = None)"
  by (simp_all add: fieldOf_def stopTrack_tracks split: option.splits)

lemma initTrack_cases:
  assumes "initTrack t rnd s = Inr s'"
  obtains "tracks s (tid t) \<noteq> None" "s' = s"
  | s1 s2 where "tracks s (tid t) = None"
      "updateTrackLFOs t (initChain t s) = Inr s1"
      "updateTrackDrift t rnd s1 = Inr s2" "s' = updateTrackEQ t s2"
  using assms by (auto simp add: initTrack_def split: if_splits sum.splits)

lemma initTrack_ok: "\<exists>s'. initTrack t rnd s = Inr s'"
proof (cases "tracks s (tid t)")
  case (Some n) then show ?thesis by (simp add: initTrack_def)
next
  case None
  have n: "tracks (initChain t s) (tid t) = Some emptyNodes" by simp
  have "\<And>slot. get_osc slot emptyNodes \<noteq> None \<longrightarrow> get_gain slot emptyNodes \<noteq> None" by simp
  from updateTrackLFOs_run[OF n this] obtain s1 where s1: "updateTrackLFOs t (initChain t s) = Inr s1"
    by metis
  from fieldOf_SomeD[OF updateTrackLFOs_frame(2)[OF s1] n]
  obtain n1 where n1: "tracks s1 (tid t) = Some n1" "driftPart n1 = driftPart emptyNodes" by auto
  then have "driftLfo n1 \<noteq> None \<longrightarrow> driftGain n1 \<noteq> None" by (simp add: driftPart_def)
  from updateTrackDrift_ok[OF n1(1) this] obtain s2 where "updateTrackDrift t rnd s1 = Inr s2"
    by blast
  with s1 None show ?thesis by (simp add: initTrack_def)
qed

lemma initTrack_dom:
  assumes "initTrack t rnd s = Inr s'"
  shows "(tracks s' j = None) = (tracks s j = None \<and> j \<noteq> tid t)"
  using assms
proof (cases rule: initTrack_cases)
  case 1 then show ?thesis by auto
next
  case (2 s1 s2)
  have "(tracks s' j = None) = (tracks (initChain t s) j = None)"
    using 2(4) updateTrackDrift_frame(4)[OF 2(3), of j] updateTrackLFOs_frame(4)[OF 2(2), of j]
    by simp
  then show ?thesis by simp
qed

lemma initTrack_other_parts:
  assumes "initTrack t rnd s = Inr s'" "j \<noteq> tid t"
  shows "fieldOf lfoPart s' j = fieldOf lfoPart s j"
    and "fieldOf driftPart s' j = fieldOf driftPart s j"
    and "fieldOf fadePart s' j = fieldOf fadePart s j"
    and "fieldOf source s' j = fieldOf source s j"
proof -
  have init: "fieldOf f (initChain t s) j = fieldOf f s j" for f :: "TrackNodes \<Rightarrow> 'b"
    using assms(2) by (simp add: fieldOf_def)
  have eq: "fieldOf f (updateTrackEQ t s2) j = fieldOf f s2 j" for f :: "TrackNodes \<Rightarrow> 'b" and s2
    by (simp add: fieldOf_def)
  show "fieldOf lfoPart s' j = fieldOf lfoPart s j"
    using assms(1)
  proof (cases rule: initTrack_cases)
    case 1 then show ?thesis by simp
  next
    case (2 s1 s2)
    show ?thesis
      unfolding 2(4) eq updateTrackDrift_frame(2)[OF 2(3)]
        updateTrackLFOs_other[OF 2(2) assms(2)] init ..
  qed
  show "fieldOf driftPart s' j = fieldOf driftPart s j"
    using assms(1)
  proof (cases rule: initTrack_cases)
    case 1 then show ?thesis by simp
  next
    case (2 s1 s2)
    show ?thesis
      unfolding 2(4) eq updateTrackDrift_frame(9)[OF 2(3) assms(2)]
        updateTrackLFOs_frame(2)[OF 2(2)] init ..
  qed
  show "fieldOf fadePart s' j = fieldOf fadePart s j"
    using assms(1)
  proof (cases rule: initTrack_cases)
    case 1 then show ?thesis by simp
  next
    case (2 s1 s2)
    show ?thesis
      unfolding 2(4) eq updateTrackDrift_frame(3)[OF 2(3)]
        updateTrackLFOs_frame(3)[OF 2(2)] init ..
  qed
  show "fieldOf source s' j = fieldOf source s j"
    using assms(1)
  proof (cases rule: initTrack_cases)
    case 1 then show ?thesis by simp
  next
    case (2 s1 s2)
    show ?thesis
      unfolding 2(4) eq updateTrackDrift_frame(1)[OF 2(3)]
        updateTrackLFOs_frame(1)[OF 2(2)] init ..
  qed
qed

lemma initTrack_own_ok:
  assumes "initTrack t rnd s = Inr s'" "tracks s (tid t) = None"
  shows "\<exists>n'. tracks s' (tid t) = Some n' \<and> nodes_ok n' \<and> source n' = None \<and> fadePart n' = (None, None)"
  using assms(1)
proof (cases rule: initTrack_cases)
  case 1 with assms(2) show ?thesis by simp
next
  case (2 s1 s2)
  have n: "tracks (initChain t s) (tid t) = Some emptyNodes" by simp
  from fieldOf_SomeD[OF updateTrackLFOs_frame(1)[OF 2(2)] n]
       fieldOf_SomeD[OF updateTrackLFOs_frame(2)[OF 2(2)] n]
       fieldOf_SomeD[OF updateTrackLFOs_frame(3)[OF 2(2)] n]
  obtain n1 where n1: "tracks s1 (tid t) = Some n1" "source n1 = None"
    "driftPart n1 = driftPart emptyNodes" "fadePart n1 = fadePart emptyNodes" by auto
  have lfo1: "get_osc slot n1 \<noteq> None \<longrightarrow> get_gain slot n1 \<noteq> None" for slot
    using updateTrackLFOs_slot[OF 2(2) n, of slot] n1 by auto
  from updateTrackDrift_post[OF 2(3) n1(1)] obtain n2 where n2: "tracks s2 (tid t) = Some n2"
    "driftPart n2 = driftPart n1 \<or> driftPart n2 = (Some (nextNode s1), Some (Suc (nextNode s1)))"
    by auto
  from updateTrackDrift_frame(1,2,3)[OF 2(3), of "tid t"] n1 n2
  have same: "source n2 = None" "lfoPart n2 = lfoPart n1" "fadePart n2 = fadePart emptyNodes"
    by (simp_all add: fieldOf_def)
  have "driftLfo n2 \<noteq> None \<longrightarrow> driftGain n2 \<noteq> None"
    using n2(2) n1(3) by (auto simp add: driftPart_def)
  moreover have "get_osc slot n2 \<noteq> None \<longrightarrow> get_gain slot n2 \<noteq> None" for slot
    using lfo1[of slot] same(2) unfolding lfoPart_eq_iff by simp
  ultimately have "nodes_ok n2" unfolding nodes_ok_slots by blast
  with n2(1) same 2(4) show ?thesis by (simp add: fadePart_def)
qed

lemma initTrack_engine_ok:
  assumes "initTrack t rnd s = Inr s'" "engine_ok s"
  shows "engine_ok s'"
proof (cases "tracks s (tid t)")
  case (Some n)
  with assms show ?thesis by (simp add: initTrack_def)
next
  case None
  show ?thesis unfolding engine_ok_def
  proof (intro allI impI)
    fix j n' assume n': "tracks s' j = Some n'"
    show "nodes_ok n'"
    proof (cases "j = tid t")
      case True
      with initTrack_own_ok[OF assms(1) None] n' show ?thesis by simp
    next
      case False
      from n' initTrack_dom[OF assms(1), of j] False obtain n where n: "tracks s j = Some n"
        by (cases "tracks s j") simp_all
      from initTrack_other_parts(1,2)[OF assms(1) False] n n'
      have "lfoPart n' = lfoPart n" "driftPart n' = driftPart n" by (simp_all add: fieldOf_def)
      then have "nodes_ok n' = nodes_ok n" by (rule nodes_ok_cong)
      with n assms(2) show ?thesis by (simp add: engine_ok_def)
    qed
  qed
qed

lemma run_timer_fields [simp]:
  "ctxState (run_timer x s) = ctxState s" "currentTime (run_timer x s) = currentTime s"
  "nextNode (run_timer x s) = nextNode s" "noiseSource (run_timer x s) = noiseSource s"
  "trackIds (run_timer x s) = trackIds s" "timers (run_timer x s) = timers s"
  "started (run_timer x s) = started s" "timeline (run_timer x s) = timeline s"
  by (cases x; simp add: Let_def split: option.splits)+

lemma run_timer_parts [simp]:
  "fieldOf lfoPart (run_timer x s) j = fieldOf lfoPart s j"
  "fieldOf fadePart (run_timer x s) j = fieldOf fadePart s j"
  "fieldOf source (run_timer x s) j = fieldOf source s j"
  "(tracks (run_timer x s) j = None) = (tracks s j = None)"
  by (cases x; simp add: Let_def fieldOf_def split: option.splits)+

lemma nodes_ok_drift_clear: "nodes_ok n \<Longrightarrow> nodes_ok (n\<lparr>driftLfo := None, driftGain := None\<rparr>)"
  by (simp add: nodes_ok_def)

lemma run_timer_tracks:
  "tracks (run_timer x s) j =
     (case x of
        StopSource k \<Rightarrow> tracks s j
      | DriftTeardown i \<Rightarrow>
          (case tracks s j of
             None \<Rightarrow> None
           | Some n \<Rightarrow> if j = i \<and> driftLfo n \<noteq> None
                      then Some (n\<lparr>driftLfo := None, driftGain := None\<rparr>) else Some n))"
  by (cases x) (auto simp add: Let_def split: option.splits)

declare run_timer.simps [simp del]

lemma run_timer_engine_ok:
  assumes "engine_ok s"
  shows "engine_ok (run_timer x s)"
  unfolding engine_ok_def
proof (intro allI impI)
  fix j n' assume n': "tracks (run_timer x s) j = Some n'"
  show "nodes_ok n'"
  proof (cases x)
    case (StopSource k)
    with n' assms show ?thesis by (simp add: run_timer_tracks engine_ok_def)
  next
    case (DriftTeardown i)
    with n' obtain n where n: "tracks s j = Some n"
      "n' = n \<or> n' = n\<lparr>driftLfo := None, driftGain := None\<rparr>"
      by (auto simp add: run_timer_tracks split: option.splits if_splits)
    with assms have "nodes_ok n" by (simp add: engine_ok_def)
    with n(2) show ?thesis by (auto simp add: nodes_ok_drift_clear)
  qed
qed

lemma fold_run_timer_engine_ok:
  "engine_ok s \<Longrightarrow> engine_ok (fold (\<lambda>x. run_timer (snd x)) xs s)"
  by (induction xs arbitrary: s) (simp_all add: run_timer_engine_ok)

lemma engine_ok_clock [simp]:
  "engine_ok (s\<lparr>currentTime := t, timers := r\<rparr>) = engine_ok s"
  by (simp add: engine_ok_def)

lemma advance_engine_ok: "engine_ok s \<Longrightarrow> engine_ok (advance dt s)"
  by (simp add: advance_def Let_def fold_run_timer_engine_ok)

lemma playTrack_engine_ok: "engine_ok s \<Longrightarrow> engine_ok (playTrack t s)"
  by (rule engine_ok_frame) simp_all

lemma stopTrack_engine_ok: "engine_ok s \<Longrightarrow> engine_ok (stopTrack i s)"
  by (rule engine_ok_frame) simp_all

lemma killOsc_fields [simp]:
  "ctxState (killOsc x s) = ctxState s" "currentTime (killOsc x s) = currentTime s"
  "nextNode (killOsc x s) = nextNode s" "noiseSource (killOsc x s) = noiseSource s"
  "tracks (killOsc x s) = tracks s" "trackIds (killOsc x s) = trackIds s"
  "timeline (killOsc x s) = timeline s" "started (killOsc x s) = started s"
  "timers (killOsc x s) = timers s"
  by (simp_all add: killOsc_def split: option.splits)

lemma resetParam_fields [simp]:
  "ctxState (resetParam p v s) = ctxState s" "currentTime (resetParam p v s) = currentTime s"
  "nextNode (resetParam p v s) = nextNode s" "noiseSource (resetParam p v s) = noiseSource s"
  "tracks (resetParam p v s) = tracks s" "trackIds (resetParam p v s) = trackIds s"
  "edges (resetParam p v s) = edges s" "started (resetParam p v s) = started s"
  "stopped (resetParam p v s) = stopped s" "timers (resetParam p v s) = timers s"
  by (simp_all add: resetParam_def)

lemma resetTrack_tracks:
  "tracks (resetTrack i s) j =
     (case tracks s j of
        None \<Rightarrow> None
      | Some n \<Rightarrow> if j = i
                 then Some (n\<lparr>source := None, lfoVolN := None, lfoPanN := None, lfoPitchN := None,
                              driftLfo := None, fadeOsc := None\<rparr>)
                 else Some n)"
  by (auto simp add: resetTrack_def Let_def stopTrack_tracks split: option.splits)

lemma resetTrack_fields [simp]:
  "ctxState (resetTrack i s) = ctxState s" "currentTime (resetTrack i s) = currentTime s"
  "nextNode (resetTrack i s) = nextNode s" "noiseSource (resetTrack i s) = noiseSource s"
  "trackIds (resetTrack i s) = trackIds s" "started (resetTrack i s) = started s"
  by (simp_all add: resetTrack_def Let_def split: option.splits)

lemma nodes_ok_reset:
  "nodes_ok n \<Longrightarrow> nodes_ok (n\<lparr>source := None, lfoVolN := None, lfoPanN := None, lfoPitchN := None,
                              driftLfo := None, fadeOsc := None\<rparr>)"
  by (simp add: nodes_ok_def)

lemma resetTrack_engine_ok:
  assumes "engine_ok s"
  shows "engine_ok (resetTrack i s)"
  unfolding engine_ok_def
proof (intro allI impI)
  fix j n' assume "tracks (resetTrack i s) j = Some n'"
  then obtain n where n: "tracks s j = Some n"
    "n' = n \<or> n' = n\<lparr>source := None, lfoVolN := None, lfoPanN := None, lfoPitchN := None,
                              driftLfo := None, fadeOsc := None\<rparr>"
    by (auto simp add: resetTrack_tracks split: option.splits if_splits)
  with assms have "nodes_ok n" by (simp add: engine_ok_def)
  with n(2) show "nodes_ok n'" by (auto simp add: nodes_ok_reset)
qed

lemma fold_resetTrack_engine_ok: "engine_ok s \<Longrightarrow> engine_ok (fold resetTrack is s)"
  by (induction "is" arbitrary: s) (simp_all add: resetTrack_engine_ok)

lemma fold_resetTrack_fields [simp]:
  "ctxState (fold resetTrack is s) = ctxState s" "currentTime (fold resetTrack is s) = currentTime s"
  "nextNode (fold resetTrack is s) = nextNode s" "noiseSource (fold resetTrack is s) = noiseSource s"
  "trackIds (fold resetTrack is s) = trackIds s" "started (fold resetTrack is s) = started s"
  by (induction "is" arbitrary: s; simp)+

lemma updateMasterVolume_fields [simp]:
  "ctxState (updateMasterVolume v s) = ctxState s" "currentTime (updateMasterVolume v s) = currentTime s"
  "nextNode (updateMasterVolume v s) = nextNode s" "noiseSource (updateMasterVolume v s) = noiseSource s"
  "tracks (updateMasterVolume v s) = tracks s" "trackIds (updateMasterVolume v s) = trackIds s"
  "edges (updateMasterVolume v s) = edges s" "started (updateMasterVolume v s) = started s"
  "stopped (updateMasterVolume v s) = stopped s" "timers (updateMasterVolume v s) = timers s"
  by (simp_all add: updateMasterVolume_def)

lemma startGlobalNoise_fields [simp]:
  "ctxState (startGlobalNoise s) = ctxState s" "currentTime (startGlobalNoise s) = currentTime s"
  "nextNode (startGlobalNoise s) = Suc (nextNode s)" "noiseSource (startGlobalNoise s) = Some (nextNode s)"
  "tracks (startGlobalNoise s) = tracks s" "trackIds (startGlobalNoise s) = trackIds s"
  "edges (startGlobalNoise s) = edges s" "started (startGlobalNoise s) = List.insert (Source (nextNode s)) (started s)"
  "stopped (startGlobalNoise s) = stopped s" "timers (startGlobalNoise s) = timers s"
  "timeline (startGlobalNoise s) = timeline s"
  by (simp_all add: startGlobalNoise_def alloc_def)

lemma reset_tracks: "tracks (reset s) = tracks (fold resetTrack (trackIds s) s)"
  by (simp add: reset_def Let_def)

lemma reset_engine_ok: "engine_ok s \<Longrightarrow> engine_ok (reset s)"
  using fold_resetTrack_engine_ok[of s "trackIds s"]
  by (simp add: engine_ok_def reset_tracks)

lemma step_ok:
  assumes "engine_ok s"
  shows "\<exists>s'. step c s = Inr s' \<and> engine_ok s'"
proof (cases c)
  case (InitTrack t rnd)
  from initTrack_ok[of t rnd s] obtain s' where "initTrack t rnd s = Inr s'" by blast
  with initTrack_engine_ok[OF this assms] InitTrack show ?thesis by simp
next
  case (PlayTrack t)
  with playTrack_engine_ok[OF assms] show ?thesis by simp
next
  case (StopTrack i)
  with stopTrack_engine_ok[OF assms] show ?thesis by simp
next
  case (UpdateTrackParams t mv a sid rnd)
  show ?thesis
  proof (cases "tracks s (tid t)")
    case None
    with UpdateTrackParams assms show ?thesis by (simp add: updateTrackParams_def)
  next
    case (Some n)
    with assms have "nodes_ok n" by (simp add: engine_ok_def)
    from updateTrackParams_ok[OF Some this] obtain s' where
      "updateTrackParams t mv a sid rnd s = Inr s'" by blast
    with updateTrackParams_engine_ok[OF this assms] UpdateTrackParams show ?thesis by simp
  qed
next
  case Reset
  with reset_engine_ok[OF assms] show ?thesis by simp
next
  case (Advance dt)
  with advance_engine_ok[OF assms] show ?thesis by simp
qed

lemma run_ok: "engine_ok s \<Longrightarrow> \<exists>s'. run cs s = Inr s' \<and> engine_ok s'"
proof (induction cs arbitrary: s)
  case Nil then show ?case by simp
next
  case (Cons c cs)
  from step_ok[OF Cons.prems, of c] obtain s1 where "step c s = Inr s1" "engine_ok s1" by blast
  with Cons.IH[OF this(2)] show ?case by simp
qed

lemma run_invariant:
  assumes "run cs s = Inr s'" "P s" "\<And>c s s'. P s \<Longrightarrow> step c s = Inr s' \<Longrightarrow> P s'"
  shows "P s'"
  using assms(1,2)
proof (induction cs arbitrary: s)
  case Nil then show ?case by simp
next
  case (Cons c cs)
  from Cons.prems(1) obtain s1 where s1: "step c s = Inr s1" "run cs s1 = Inr s'"
    by (auto split: sum.splits)
  from Cons.IH[OF s1(2) assms(3)[OF Cons.prems(2) s1(1)]] show ?case .
qed

lemma engine_ok_new [simp]: "engine_ok (AudioEngine_new st)"
  by (simp add: engine_ok_def)

lemma fb_out_paramsTail_own:
  "out_edges (Chain (tid t) FeedbackGain) (paramsTail t s) =
     (if targetId t \<noteq> - 1 \<and> tracks s (targetId t) \<noteq> None \<and> feedbackSend t > 0.01
      then [ToParam (Chain (targetId t) EqMid, PFrequency)] else [])"
  "out_edges (Chain (tid t) FeedbackFMGain) (paramsTail t s) =
     (if targetId t \<noteq> - 1 \<and> feedbackSend t > 0.01 \<and> fmAmt t > 0
      then (case fieldOf source s (targetId t) of
              Some (Some src) \<Rightarrow> [ToParam (Source src, PPlaybackRate)]
            | _ \<Rightarrow> [])
      else [])"
proof -
  have g: "fieldOf source (granular t s') j = fieldOf source s' j" for s' j
    by (simp add: fieldOf_def)
  show "out_edges (Chain (tid t) FeedbackGain) (paramsTail t s) =
     (if targetId t \<noteq> - 1 \<and> tracks s (targetId t) \<noteq> None \<and> feedbackSend t > 0.01
      then [ToParam (Chain (targetId t) EqMid, PFrequency)] else [])"
    by (simp add: paramsTail_def Let_def fb_out_feedbackLoop_own)
  show "out_edges (Chain (tid t) FeedbackFMGain) (paramsTail t s) =
     (if targetId t \<noteq> - 1 \<and> feedbackSend t > 0.01 \<and> fmAmt t > 0
      then (case fieldOf source s (targetId t) of
              Some (Some src) \<Rightarrow> [ToParam (Source src, PPlaybackRate)]
            | _ \<Rightarrow> [])
      else [])"
    by (simp add: paramsTail_def Let_def fb_out_feedbackLoop_own g)
qed

lemma fb_out_paramsTail_other:
  assumes "r = FeedbackGain \<or> r = FeedbackFMGain" "j \<noteq> tid t"
  shows "out_edges (Chain j r) (paramsTail t s) = out_edges (Chain j r) s"
  using assms
  by (auto simp add: paramsTail_def Let_def fb_out_feedbackLoop_other fb_out_granular
      fb_out_updateCrossfade)

lemma fb_out_updateTrackParams_other:
  assumes "updateTrackParams t mv a sid rnd s = Inr s'"
    "r = FeedbackGain \<or> r = FeedbackFMGain" "j \<noteq> tid t \<or> tracks s (tid t) = None"
  shows "out_edges (Chain j r) s' = out_edges (Chain j r) s"
  using assms(1)
proof (cases rule: updateTrackParams_cases)
  case 1 then show ?thesis by simp
next
  case (2 n s1 s2)
  with assms(3) have j: "j \<noteq> tid t" by simp
  have r: "r \<noteq> SprayGain" using assms(2) by auto
  show ?thesis
    unfolding 2(4) fb_out_paramsTail_other[OF assms(2) j] fb_out_updateTrackDrift[OF 2(3)]
      fb_out_updateTrackLFOs[OF 2(2)] fb_out_paramsHead[OF r] ..
qed

lemma fb_out_updateTrackParams_own:
  assumes "updateTrackParams t mv a sid rnd s = Inr s'" "tracks s (tid t) \<noteq> None"
  shows "out_edges (Chain (tid t) FeedbackGain) s' =
     (if targetId t \<noteq> - 1 \<and> tracks s (targetId t) \<noteq> None \<and> feedbackSend t > 0.01
      then [ToParam (Chain (targetId t) EqMid, PFrequency)] else [])"
    and "out_edges (Chain (tid t) FeedbackFMGain) s' =
     (if targetId t \<noteq> - 1 \<and> feedbackSend t > 0.01 \<and> fmAmt t > 0
      then (case fieldOf source s' (targetId t) of
              Some (Some src) \<Rightarrow> [ToParam (Source src, PPlaybackRate)]
            | _ \<Rightarrow> [])
      else [])"
proof -
  from assms obtain n s1 s2 where c: "tracks s (tid t) = Some n"
      "updateTrackLFOs t (paramsHead t a s) = Inr s1"
      "updateTrackDrift t rnd s1 = Inr s2" "s' = paramsTail t s2"
    by (elim updateTrackParams_cases) auto
  have dom: "(tracks s2 j = None) = (tracks s j = None)" for j
    using updateTrackDrift_frame(4)[OF c(3), of j] updateTrackLFOs_frame(4)[OF c(2), of j] by simp
  show "out_edges (Chain (tid t) FeedbackGain) s' =
     (if targetId t \<noteq> - 1 \<and> tracks s (targetId t) \<noteq> None \<and> feedbackSend t > 0.01
      then [ToParam (Chain (targetId t) EqMid, PFrequency)] else [])"
    unfolding c(4) fb_out_paramsTail_own dom ..
  show "out_edges (Chain (tid t) FeedbackFMGain) s' =
     (if targetId t \<noteq> - 1 \<and> feedbackSend t > 0.01 \<and> fmAmt t > 0
      then (case fieldOf source s' (targetId t) of
              Some (Some src) \<Rightarrow> [ToParam (Source src, PPlaybackRate)]
            | _ \<Rightarrow> [])
      else [])"
    unfolding c(4) fb_out_paramsTail_own paramsTail_parts ..
qed

lemma fb_out_initChain:
  assumes "r = FeedbackGain \<or> r = FeedbackFMGain"
  shows "out_edges (Chain j r) (initChain t s) = out_edges (Chain j r) s"
  using assms by (auto simp add: initChain_def Let_def split: option.splits)

lemma fb_out_initTrack:
  assumes "initTrack t rnd s = Inr s'" "r = FeedbackGain \<or> r = FeedbackFMGain"
  shows "out_edges (Chain j r) s' = out_edges (Chain j r) s"
  using assms(1)
proof (cases rule: initTrack_cases)
  case 1 then show ?thesis by simp
next
  case (2 s1 s2)
  show ?thesis
    unfolding 2(4) fb_out_updateTrackEQ fb_out_updateTrackDrift[OF 2(3)]
      fb_out_updateTrackLFOs[OF 2(2)] fb_out_initChain[OF assms(2)] ..
qed

lemma fb_out_run_timer: "out_edges (Chain j r) (run_timer x s) = out_edges (Chain j r) s"
  by (cases x) (auto simp add: run_timer.simps Let_def split: option.splits)

lemma fb_out_advance: "out_edges (Chain j r) (advance dt s) = out_edges (Chain j r) s"
proof -
  have "out_edges (Chain j r) (fold (\<lambda>x. run_timer (snd x)) xs s') = out_edges (Chain j r) s'"
    for xs :: "(real \<times> timer) list" and s'
    by (induction xs arbitrary: s') (simp_all add: fb_out_run_timer)
  then show ?thesis by (simp add: advance_def Let_def)
qed

lemma fb_out_killOsc: "out_edges (Chain j r) (killOsc x s) = out_edges (Chain j r) s"
  by (simp add: killOsc_def split: option.splits)

lemma fb_out_resetParam: "out_edges n (resetParam p v s) = out_edges n s"
  by (simp add: out_edges_def)

lemma fb_out_resetTrack:
  "r \<noteq> SprayGain \<Longrightarrow> out_edges (Chain j r) (resetTrack i s) = out_edges (Chain j r) s"
  by (simp add: resetTrack_def Let_def fb_out_resetParam fb_out_killOsc fb_out_stopTrack
      split: option.splits)

lemma fb_out_reset:
  assumes "r \<noteq> SprayGain"
  shows "out_edges (Chain j r) (reset s) = out_edges (Chain j r) s"
proof -
  have "out_edges (Chain j r) (fold resetTrack is s') = out_edges (Chain j r) s'" for "is" s'
    by (induction "is" arbitrary: s') (simp_all add: fb_out_resetTrack[OF assms])
  then show ?thesis by (simp add: reset_def Let_def out_edges_def)
qed

text \<open>A feedback send never has more than one connection.\<close>

lemma step_feedback_single:
  assumes "step c s = Inr s'" "r = FeedbackGain \<or> r = FeedbackFMGain"
    "\<forall>j. length (out_edges (Chain j r) s) \<le> 1"
  shows "length (out_edges (Chain j r) s') \<le> 1"
proof -
  have r: "r \<noteq> SprayGain" using assms(2) by auto
  show ?thesis
  proof (cases c)
    case (InitTrack t rnd)
    with assms(1) fb_out_initTrack[OF _ assms(2)] assms(3) show ?thesis by simp
  next
    case (PlayTrack t)
    with assms(1,3) fb_out_playTrack[OF r] show ?thesis by auto
  next
    case (StopTrack i)
    with assms(1,3) fb_out_stopTrack[OF r] show ?thesis by auto
  next
    case (UpdateTrackParams t mv a sid rnd)
    with assms(1) have u: "updateTrackParams t mv a sid rnd s = Inr s'" by simp
    show ?thesis
    proof (cases "j \<noteq> tid t \<or> tracks s (tid t) = None")
      case True
      from fb_out_updateTrackParams_other[OF u assms(2) True] assms(3) show ?thesis by simp
    next
      case False
      then have "j = tid t" "tracks s (tid t) \<noteq> None" by auto
      with fb_out_updateTrackParams_own[OF u this(2)] assms(2) show ?thesis
        by (auto split: option.splits)
    qed
  next
    case Reset
    with assms(1,3) fb_out_reset[OF r] show ?thesis by auto
  next
    case (Advance dt)
    with assms(1,3) fb_out_advance show ?thesis by auto
  qed
qed

lemma new_out_edges_chain [simp]: "out_edges (Chain j r) (AudioEngine_new st) = []"
  by (simp add: AudioEngine_new_def startGlobalNoise_def Let_def alloc_def out_edges_def)

lemma run_feedback_single:
  assumes "run cs (AudioEngine_new st) = Inr s" "r = FeedbackGain \<or> r = FeedbackFMGain"
  shows "length (out_edges (Chain j r) s) \<le> 1"
proof -
  have "\<forall>j. length (out_edges (Chain j r) s) \<le> 1"
  proof (rule run_invariant[OF assms(1), where P="\<lambda>s. \<forall>j. length (out_edges (Chain j r) s) \<le> 1"])
    show "\<forall>j. length (out_edges (Chain j r) (AudioEngine_new st)) \<le> 1" by simp
  next
    fix c s1 s2
    assume "\<forall>j. length (out_edges (Chain j r) s1) \<le> 1" "step c s1 = Inr s2"
    then show "\<forall>j. length (out_edges (Chain j r) s2) \<le> 1"
      using step_feedback_single[OF _ assms(2)] by blast
  qed
  then show ?thesis by simp
qed

lemma updateTrackParams_source:
  assumes "updateTrackParams t mv a sid rnd s = Inr s'"
  shows "fieldOf source s' j = fieldOf source (transport t s) j"
  using assms
proof (cases rule: updateTrackParams_cases)
  case 1 then show ?thesis by (simp add: transport_def)
next
  case (2 n s1 s2)
  have "fieldOf source (paramsHead t a s) j = fieldOf source (transport t s) j"
    by (simp add: fieldOf_def)
  then show ?thesis
    unfolding 2(4) paramsTail_parts updateTrackDrift_frame(1)[OF 2(3)]
      updateTrackLFOs_frame(1)[OF 2(2)] .
qed

text \<open>
  C6. \<open>updateTrackParams\<close> on a track of the table returns, and whatever the two feedback
  sends were connected to before, afterwards the first is connected to nothing but the
  mid-filter frequency of the target, and only if the target id is not -1, the target is in the
  table and \<open>feedbackSend > 0.01\<close>; the second to nothing but the playback rate of the
  target's active source, and only if moreover the FM amount is positive and the target has
  one. The target id is \<open>feedbackTargetId\<close> where defined and the remainder of \<open>id + 1\<close> by 8
  otherwise; with target -1 both gains are driven to 0. After any sequence of calls of the
  engine every send of every track has at most one connection.
\<close>

theorem feedback_single_edge:
  assumes "tracks s (tid t) = Some n" and "nodes_ok n"
  shows "(\<exists>s'. updateTrackParams t mv a sid rnd s = Inr s'
           \<and> out_edges (Chain (tid t) FeedbackGain) s' =
               (if targetId t \<noteq> - 1 \<and> tracks s (targetId t) \<noteq> None \<and> feedbackSend t > 0.01
                then [ToParam (Chain (targetId t) EqMid, PFrequency)] else [])
           \<and> out_edges (Chain (tid t) FeedbackFMGain) s' =
               (if targetId t \<noteq> - 1 \<and> feedbackSend t > 0.01 \<and> fmAmt t > 0
                then (case fieldOf source (transport t s) (targetId t) of
                        Some (Some src) \<Rightarrow> [ToParam (Source src, PPlaybackRate)]
                      | _ \<Rightarrow> [])
                else [])
           \<and> (targetId t = - 1 \<longrightarrow>
                 driven_to (Chain (tid t) FeedbackGain, PGain) s' = Some 0
                 \<and> driven_to (Chain (tid t) FeedbackFMGain, PGain) s' = Some 0))
         \<and> targetId t = (case feedbackTargetId t of Some x \<Rightarrow> x | None \<Rightarrow> jsrem (tid t + 1) 8)
         \<and> (feedbackTargetId t = None \<and> 0 \<le> tid t \<longrightarrow> targetId t = (tid t + 1) mod 8)
         \<and> (\<exists>s1. run cs (AudioEngine_new st) = Inr s1
               \<and> (\<forall>j. length (out_edges (Chain j FeedbackGain) s1) \<le> 1
                      \<and> length (out_edges (Chain j FeedbackFMGain) s1) \<le> 1))"
proof -
  from updateTrackParams_ok[OF assms] obtain s' where
    s': "updateTrackParams t mv a sid rnd s = Inr s'" by blast
  have t: "tracks s (tid t) \<noteq> None" using assms(1) by simp
  have off: "driven_to (Chain (tid t) FeedbackGain, PGain) s' = Some 0
             \<and> driven_to (Chain (tid t) FeedbackFMGain, PGain) s' = Some 0" if "targetId t = - 1"
    using updateTrackParams_feedback[OF s' t] that by (simp add: driven_to_def)
  have first: "\<exists>s'. updateTrackParams t mv a sid rnd s = Inr s'
           \<and> out_edges (Chain (tid t) FeedbackGain) s' =
               (if targetId t \<noteq> - 1 \<and> tracks s (targetId t) \<noteq> None \<and> feedbackSend t > 0.01
                then [ToParam (Chain (targetId t) EqMid, PFrequency)] else [])
           \<and> out_edges (Chain (tid t) FeedbackFMGain) s' =
               (if targetId t \<noteq> - 1 \<and> feedbackSend t > 0.01 \<and> fmAmt t > 0
                then (case fieldOf source (transport t s) (targetId t) of
                        Some (Some src) \<Rightarrow> [ToParam (Source src, PPlaybackRate)]
                      | _ \<Rightarrow> [])
                else [])
           \<and> (targetId t = - 1 \<longrightarrow>
                 driven_to (Chain (tid t) FeedbackGain, PGain) s' = Some 0
                 \<and> driven_to (Chain (tid t) FeedbackFMGain, PGain) s' = Some 0)"
    using s' fb_out_updateTrackParams_own[OF s' t] off
    unfolding updateTrackParams_source[OF s'] by blast
  have ring: "feedbackTargetId t = None \<and> 0 \<le> tid t \<longrightarrow> targetId t = (tid t + 1) mod 8"
    by (simp add: targetId_def jsrem_nonneg)
  from run_ok[OF engine_ok_new, of cs st] obtain s1 where s1: "run cs (AudioEngine_new st) = Inr s1"
    by blast
  have "\<forall>j. length (out_edges (Chain j FeedbackGain) s1) \<le> 1
             \<and> length (out_edges (Chain j FeedbackFMGain) s1) \<le> 1"
    using run_feedback_single[OF s1] by simp
  with s1 first ring show ?thesis by (simp add: targetId_def)
qed

theorem feedback_single_edge_witness:
  "tracks demoEngine (tid ((createDefaultTrack 0)\<lparr>feedbackSend := 7 / 10\<rparr>)) = Some emptyNodes
   \<and> nodes_ok emptyNodes
   \<and> (\<exists>s'. updateTrackParams ((createDefaultTrack 0)\<lparr>feedbackSend := 7 / 10\<rparr>) (4 / 5) False None 0
               demoEngine = Inr s'
          \<and> out_edges (Chain 0 FeedbackGain) s' = [ToParam (Chain 1 EqMid, PFrequency)]
          \<and> out_edges (Chain 0 FeedbackFMGain) s' = [])
   \<and> (\<exists>s1. run [InitTrack (createDefaultTrack 0) 0, InitTrack (createDefaultTrack 1) 0,
                  UpdateTrackParams ((createDefaultTrack 0)\<lparr>feedbackSend := 7 / 10\<rparr>) (4 / 5) False None 0]
               (AudioEngine_new Running) = Inr s1
          \<and> (\<forall>j. length (out_edges (Chain j FeedbackGain) s1) \<le> 1
                 \<and> length (out_edges (Chain j FeedbackFMGain) s1) \<le> 1))"
  using feedback_single_edge[of demoEngine "(createDefaultTrack 0)\<lparr>feedbackSend := 7 / 10\<rparr>"
          emptyNodes "4 / 5" False None 0
          "[InitTrack (createDefaultTrack 0) 0, InitTrack (createDefaultTrack 1) 0,
            UpdateTrackParams ((createDefaultTrack 0)\<lparr>feedbackSend := 7 / 10\<rparr>) (4 / 5) False None 0]"
          Running]
  by (simp add: targetId_def jsrem_def fmAmt_def fieldOf_def transport_tracks del: run.simps)

lemma lfo_matches_slots:
  "lfo_matches t n = (\<forall>slot. (get_osc slot n \<noteq> None) = enabled (config_of slot t)
                            \<and> (get_gain slot n \<noteq> None) = enabled (config_of slot t))"
proof
  assume a: "lfo_matches t n"
  show "\<forall>slot. (get_osc slot n \<noteq> None) = enabled (config_of slot t)
              \<and> (get_gain slot n \<noteq> None) = enabled (config_of slot t)"
  proof
    fix slot
    show "(get_osc slot n \<noteq> None) = enabled (config_of slot t)
              \<and> (get_gain slot n \<noteq> None) = enabled (config_of slot t)"
      using a by (cases slot) (simp_all add: lfo_matches_def)
  qed
next
  assume a: "\<forall>slot. (get_osc slot n \<noteq> None) = enabled (config_of slot t)
              \<and> (get_gain slot n \<noteq> None) = enabled (config_of slot t)"
  from a[rule_format, of LfoVol] a[rule_format, of LfoPan] a[rule_format, of LfoPitch]
  show "lfo_matches t n" by (simp add: lfo_matches_def)
qed

lemma lfo_matches_cong: "lfoPart n' = lfoPart n \<Longrightarrow> lfo_matches t n' = lfo_matches t n"
  by (simp add: lfo_matches_def lfoPart_def)

lemma updateTrackLFOs_matches:
  assumes "updateTrackLFOs t s = Inr s'" "tracks s (tid t) = Some n"
    "\<And>slot. get_osc slot n = None \<longrightarrow> get_gain slot n = None"
  shows "\<exists>n'. tracks s' (tid t) = Some n' \<and> lfo_matches t n'"
proof -
  from fieldOf_SomeD[OF updateTrackLFOs_frame(1)[OF assms(1)] assms(2)]
  obtain n' where n': "tracks s' (tid t) = Some n'" by auto
  have "(get_osc slot n' \<noteq> None) = enabled (config_of slot t)
        \<and> (get_gain slot n' \<noteq> None) = enabled (config_of slot t)" for slot
    using updateTrackLFOs_slot[OF assms(1,2), of slot] n' assms(3)[of slot] by auto
  then have "lfo_matches t n'" unfolding lfo_matches_slots by blast
  with n' show ?thesis by blast
qed

lemma initTrack_own_lfo:
  assumes "initTrack t rnd s = Inr s'" "tracks s (tid t) = None"
  shows "\<exists>n'. tracks s' (tid t) = Some n' \<and> lfo_matches t n'"
  using assms(1)
proof (cases rule: initTrack_cases)
  case 1 with assms(2) show ?thesis by simp
next
  case (2 s1 s2)
  have n: "tracks (initChain t s) (tid t) = Some emptyNodes" by simp
  from updateTrackLFOs_matches[OF 2(2) n] obtain n1 where
    n1: "tracks s1 (tid t) = Some n1" "lfo_matches t n1" by auto
  from fieldOf_SomeD[OF updateTrackDrift_frame(2)[OF 2(3)] n1(1)]
  obtain n2 where n2: "tracks s2 (tid t) = Some n2" "lfoPart n2 = lfoPart n1" by auto
  with n1(2) lfo_matches_cong[of n2 n1 t] 2(4) show ?thesis by simp
qed

lemma updateTrackParams_own_lfo:
  assumes "updateTrackParams t mv a sid rnd s = Inr s'" "tracks s (tid t) = Some n"
    "\<And>slot. get_osc slot n = None \<longrightarrow> get_gain slot n = None"
  shows "\<exists>n'. tracks s' (tid t) = Some n' \<and> lfo_matches t n'"
  using assms(1)
proof (cases rule: updateTrackParams_cases)
  case 1 with assms(2) show ?thesis by simp
next
  case (2 m s1 s2)
  from fieldOf_SomeD[OF paramsHead_parts(1)[of t a s "tid t"] assms(2)]
  obtain nh where nh: "tracks (paramsHead t a s) (tid t) = Some nh" "lfoPart nh = lfoPart n"
    by auto
  have "get_osc slot nh = None \<longrightarrow> get_gain slot nh = None" for slot
    using assms(3)[of slot] nh(2) unfolding lfoPart_eq_iff by simp
  from updateTrackLFOs_matches[OF 2(2) nh(1) this] obtain n1 where
    n1: "tracks s1 (tid t) = Some n1" "lfo_matches t n1" by auto
  from fieldOf_SomeD[OF updateTrackDrift_frame(2)[OF 2(3)] n1(1)]
  obtain n2 where n2: "tracks s2 (tid t) = Some n2" "lfoPart n2 = lfoPart n1" by auto
  from fieldOf_SomeD[OF paramsTail_parts(2)[of t s2 "tid t"] n2(1)]
  obtain n3 where n3: "tracks (paramsTail t s2) (tid t) = Some n3" "lfoPart n3 = lfoPart n2" by auto
  with n1(2) n2(2) lfo_matches_cong[of n3 n1 t] 2(4) show ?thesis by simp
qed

lemma lfo_inv_frame:
  assumes "lfo_inv s m" "\<And>j. fieldOf lfoPart s' j = fieldOf lfoPart s j"
  shows "lfo_inv s' m"
  unfolding lfo_inv_def
proof
  fix i
  show "case tracks s' i of None \<Rightarrow> m i = None
        | Some n \<Rightarrow> (case m i of None \<Rightarrow> False | Some t \<Rightarrow> lfo_matches t n)"
  proof (cases "tracks s i")
    case None
    with assms(2)[of i] have "tracks s' i = None" by (simp add: fieldOf_def)
    with None assms(1)[unfolded lfo_inv_def, rule_format, of i] show ?thesis by simp
  next
    case (Some n)
    from fieldOf_SomeD[OF assms(2) Some] obtain n' where n': "tracks s' i = Some n'"
      "lfoPart n' = lfoPart n" by auto
    with Some assms(1)[unfolded lfo_inv_def, rule_format, of i] lfo_matches_cong[OF n'(2)]
    show ?thesis by (simp split: option.splits)
  qed
qed

lemma lfo_inv_update:
  assumes "lfo_inv s m" "\<And>j. j \<noteq> i \<Longrightarrow> fieldOf lfoPart s' j = fieldOf lfoPart s j"
    "tracks s' i = Some n'" "lfo_matches t n'"
  shows "lfo_inv s' (m(i \<mapsto> t))"
  unfolding lfo_inv_def
proof
  fix j
  show "case tracks s' j of None \<Rightarrow> (m(i \<mapsto> t)) j = None
        | Some n \<Rightarrow> (case (m(i \<mapsto> t)) j of None \<Rightarrow> False | Some t \<Rightarrow> lfo_matches t n)"
  proof (cases "j = i")
    case True with assms(3,4) show ?thesis by simp
  next
    case False
    show ?thesis
    proof (cases "tracks s j")
      case None
      with assms(2)[OF False] have "tracks s' j = None" by (simp add: fieldOf_def)
      with None False assms(1)[unfolded lfo_inv_def, rule_format, of j] show ?thesis by simp
    next
      case (Some n)
      from fieldOf_SomeD[OF assms(2)[OF False] Some] obtain n2 where n2: "tracks s' j = Some n2"
        "lfoPart n2 = lfoPart n" by auto
      with Some False assms(1)[unfolded lfo_inv_def, rule_format, of j] lfo_matches_cong[OF n2(2)]
      show ?thesis by (simp split: option.splits)
    qed
  qed
qed

lemma fold_run_timer_lfoPart:
  "fieldOf lfoPart (fold (\<lambda>x. run_timer (snd x)) xs s) j = fieldOf lfoPart s j"
  for xs :: "(real \<times> timer) list"
  by (induction xs arbitrary: s) simp_all

lemma advance_lfoPart [simp]: "fieldOf lfoPart (advance dt s) j = fieldOf lfoPart s j"
  by (simp add: advance_def Let_def fold_run_timer_lfoPart) (simp add: fieldOf_def)

lemma step_lfo_inv:
  assumes "lfo_inv s m" "c \<noteq> Reset" "step c s = Inr s'"
  shows "lfo_inv s' (applied c s m)"
proof (cases c)
  case (InitTrack t rnd)
  with assms(3) have i: "initTrack t rnd s = Inr s'" by simp
  show ?thesis
  proof (cases "tracks s (tid t)")
    case (Some n)
    with i InitTrack assms(1) show ?thesis by (simp add: initTrack_def)
  next
    case None
    from initTrack_own_lfo[OF i None] obtain n' where n': "tracks s' (tid t) = Some n'"
      "lfo_matches t n'" by blast
    from lfo_inv_update[OF assms(1) initTrack_other_parts(1)[OF i] n'] None InitTrack
    show ?thesis by simp
  qed
next
  case (PlayTrack t)
  with assms(3) lfo_inv_frame[OF assms(1), of "playTrack t s"] show ?thesis by auto
next
  case (StopTrack i)
  with assms(3) lfo_inv_frame[OF assms(1), of "stopTrack i s"] show ?thesis by auto
next
  case (UpdateTrackParams t mv a sid rnd)
  with assms(3) have u: "updateTrackParams t mv a sid rnd s = Inr s'" by simp
  show ?thesis
  proof (cases "tracks s (tid t)")
    case None
    with u UpdateTrackParams assms(1) show ?thesis by (simp add: updateTrackParams_def)
  next
    case (Some n)
    with assms(1)[unfolded lfo_inv_def, rule_format, of "tid t"]
    obtain t0 where "lfo_matches t0 n" by (auto split: option.splits)
    then have "get_osc slot n = None \<longrightarrow> get_gain slot n = None" for slot
      unfolding lfo_matches_slots by (metis option.distinct(1))
    from updateTrackParams_own_lfo[OF u Some this] obtain n' where n': "tracks s' (tid t) = Some n'"
      "lfo_matches t n'" by blast
    from lfo_inv_update[OF assms(1) updateTrackParams_other_parts(1)[OF u] n'] Some UpdateTrackParams
    show ?thesis by simp
  qed
next
  case Reset
  with assms(2) show ?thesis by simp
next
  case (Advance dt)
  with assms(3) lfo_inv_frame[OF assms(1), of "advance dt s"] show ?thesis by auto
qed

lemma runS_lfo_inv:
  assumes "engine_ok s" "lfo_inv s m" "Reset \<notin> set cs"
  shows "\<exists>s' m'. runS cs s m = Inr (s', m') \<and> lfo_inv s' m' \<and> run cs s = Inr s'"
  using assms
proof (induction cs arbitrary: s m)
  case Nil then show ?case by simp
next
  case (Cons c cs)
  from step_ok[OF Cons.prems(1), of c] obtain s1 where s1: "step c s = Inr s1" "engine_ok s1"
    by blast
  from Cons.prems(3) have "c \<noteq> Reset" "Reset \<notin> set cs" by auto
  from Cons.IH[OF s1(2) step_lfo_inv[OF Cons.prems(2) this(1) s1(1)] this(2)] s1(1)
  show ?case by simp
qed

lemma manageLFO_create:
  assumes "tracks s i = Some n" "get_osc slot n = None" "enabled c"
  shows "\<exists>s' n'. manageLFO slot c i tp d s = Inr s' \<and> tracks s' i = Some n'
           \<and> get_osc slot n' = Some (nextNode s) \<and> get_gain slot n' = Some (Suc (nextNode s))
           \<and> Osc (nextNode s) \<in> set (started s')
           \<and> (Osc (nextNode s), ToNode (GainN (Suc (nextNode s)))) \<in> set (edges s')"
  using assms by (cases tp) (simp_all add: manageLFO_def Let_def)

lemma manageLFO_teardown:
  assumes "tracks s i = Some n" "get_osc slot n = Some k" "get_gain slot n = Some g" "\<not> enabled c"
  shows "\<exists>s' n'. manageLFO slot c i tp d s = Inr s' \<and> tracks s' i = Some n'
           \<and> get_osc slot n' = None \<and> get_gain slot n' = None
           \<and> Osc k \<in> set (stopped s')
           \<and> out_edges (Osc k) s' = [] \<and> out_edges (GainN g) s' = []"
  using assms by (simp add: manageLFO_def Let_def)

lemma lfo_inv_new [simp]: "lfo_inv (AudioEngine_new st) (\<lambda>i. None)"
  by (simp add: lfo_inv_def)

lemma demoEngine_fields [simp]:
  "nextNode demoEngine = 1" "currentTime demoEngine = 0" "noiseSource demoEngine = Some 0"
  "timers demoEngine = []" "ctxState demoEngine = Running" "stopped demoEngine = []"
  "started demoEngine = [Source 0]"
  by (simp_all add: demoEngine_def)

text \<open>
  C5. After any sequence of calls of the engine without \<open>reset\<close> (so any sequence of
  \<open>initTrack\<close> and \<open>updateTrackParams\<close>, also with transport calls and timer callbacks in
  between), no call has raised, and for every track of the table and each of the three LFO
  slots the oscillator is present exactly when the slot is enabled in the snapshot last
  applied to the track, and so is the gain: never one without the other. A disabled slot
  that is enabled gets a new oscillator, started and connected to a new gain; an enabled slot
  that is disabled has its oscillator stopped, no connection left from the oscillator or the
  gain, and both references null.
\<close>

theorem lfo_pair_lifecycle:
  assumes "Reset \<notin> set cs"
  shows "(\<exists>s m. runS cs (AudioEngine_new st) (\<lambda>i. None) = Inr (s, m) \<and> lfo_inv s m)
         \<and> (tracks s0 i = Some n0 \<and> get_osc slot n0 = None \<and> enabled c \<longrightarrow>
              (\<exists>s' n'. manageLFO slot c i tp d s0 = Inr s' \<and> tracks s' i = Some n'
                 \<and> get_osc slot n' = Some (nextNode s0) \<and> get_gain slot n' = Some (Suc (nextNode s0))
                 \<and> Osc (nextNode s0) \<in> set (started s')
                 \<and> (Osc (nextNode s0), ToNode (GainN (Suc (nextNode s0)))) \<in> set (edges s')))
         \<and> (tracks s0 i = Some n0 \<and> get_osc slot n0 = Some k \<and> get_gain slot n0 = Some g
              \<and> \<not> enabled c \<longrightarrow>
              (\<exists>s' n'. manageLFO slot c i tp d s0 = Inr s' \<and> tracks s' i = Some n'
                 \<and> get_osc slot n' = None \<and> get_gain slot n' = None
                 \<and> Osc k \<in> set (stopped s')
                 \<and> out_edges (Osc k) s' = [] \<and> out_edges (GainN g) s' = []))"
proof -
  from runS_lfo_inv[OF engine_ok_new lfo_inv_new assms, of st]
  have "\<exists>s m. runS cs (AudioEngine_new st) (\<lambda>i. None) = Inr (s, m) \<and> lfo_inv s m" by blast
  with manageLFO_create[of s0 i n0 slot c tp d] manageLFO_teardown[of s0 i n0 slot k g c tp d]
  show ?thesis by blast
qed

theorem lfo_pair_lifecycle_witness:
  "Reset \<notin> set [InitTrack ((createDefaultTrack 0)\<lparr>lfoVol := \<lparr>enabled = True, rate = 4, depth = 1 / 2\<rparr>\<rparr>) 0,
                  UpdateTrackParams (createDefaultTrack 0) (4 / 5) False None 0]
   \<and> (\<exists>s m. runS [InitTrack ((createDefaultTrack 0)\<lparr>lfoVol := \<lparr>enabled = True, rate = 4, depth = 1 / 2\<rparr>\<rparr>) 0,
                   UpdateTrackParams (createDefaultTrack 0) (4 / 5) False None 0]
                (AudioEngine_new Running) (\<lambda>i. None) = Inr (s, m) \<and> lfo_inv s m)
   \<and> tracks demoEngine 0 = Some emptyNodes \<and> get_osc LfoVol emptyNodes = None
   \<and> enabled \<lparr>enabled = True, rate = 4, depth = 1 / 2\<rparr>
   \<and> (\<exists>s' n'. manageLFO LfoVol \<lparr>enabled = True, rate = 4, depth = 1 / 2\<rparr> 0
                  (Some (Chain 0 TremoloGain, PGain)) (1 / 2) demoEngine = Inr s'
         \<and> tracks s' 0 = Some n' \<and> get_osc LfoVol n' = Some 1 \<and> get_gain LfoVol n' = Some 2
         \<and> Osc 1 \<in> set (started s') \<and> (Osc 1, ToNode (GainN 2)) \<in> set (edges s'))
   \<and> tracks (demoEngine\<lparr>tracks := (tracks demoEngine)(0 \<mapsto> emptyNodes\<lparr>lfoVolN := Some 1, lfoVolGain := Some 2\<rparr>)\<rparr>) 0
        = Some (emptyNodes\<lparr>lfoVolN := Some 1, lfoVolGain := Some 2\<rparr>)
   \<and> get_osc LfoVol (emptyNodes\<lparr>lfoVolN := Some 1, lfoVolGain := Some 2\<rparr>) = Some 1
   \<and> get_gain LfoVol (emptyNodes\<lparr>lfoVolN := Some 1, lfoVolGain := Some 2\<rparr>) = Some 2
   \<and> \<not> enabled \<lparr>enabled = False, rate = 4, depth = 1 / 2\<rparr>
   \<and> (\<exists>s' n'. manageLFO LfoVol \<lparr>enabled = False, rate = 4, depth = 1 / 2\<rparr> 0
                  (Some (Chain 0 TremoloGain, PGain)) (1 / 2)
                  (demoEngine\<lparr>tracks := (tracks demoEngine)(0 \<mapsto> emptyNodes\<lparr>lfoVolN := Some 1, lfoVolGain := Some 2\<rparr>)\<rparr>)
                = Inr s'
         \<and> tracks s' 0 = Some n' \<and> get_osc LfoVol n' = None \<and> get_gain LfoVol n' = None
         \<and> Osc 1 \<in> set (stopped s') \<and> out_edges (Osc 1) s' = [] \<and> out_edges (GainN 2) s' = [])"
  using lfo_pair_lifecycle[of "[InitTrack ((createDefaultTrack 0)\<lparr>lfoVol := \<lparr>enabled = True, rate = 4, depth = 1 / 2\<rparr>\<rparr>) 0,
                  UpdateTrackParams (createDefaultTrack 0) (4 / 5) False None 0]" Running
          demoEngine 0 emptyNodes LfoVol "\<lparr>enabled = True, rate = 4, depth = 1 / 2\<rparr>"
          "Some (Chain 0 TremoloGain, PGain)" "1 / 2" 1 2]
        lfo_pair_lifecycle[of "[InitTrack ((createDefaultTrack 0)\<lparr>lfoVol := \<lparr>enabled = True, rate = 4, depth = 1 / 2\<rparr>\<rparr>) 0,
                  UpdateTrackParams (createDefaultTrack 0) (4 / 5) False None 0]" Running
          "demoEngine\<lparr>tracks := (tracks demoEngine)(0 \<mapsto> emptyNodes\<lparr>lfoVolN := Some 1, lfoVolGain := Some 2\<rparr>)\<rparr>"
          0 "emptyNodes\<lparr>lfoVolN := Some 1, lfoVolGain := Some 2\<rparr>" LfoVol
          "\<lparr>enabled = False, rate = 4, depth = 1 / 2\<rparr>"
          "Some (Chain 0 TremoloGain, PGain)" "1 / 2" 1 2]
  by (simp add: numeral_2_eq_2 del: runS.simps)

lemma playing_iff:
  "k \<in> set (playing i s) \<longleftrightarrow>
     (Source k, ToNode (Chain i TremoloGain)) \<in> set (edges s) \<and> Source k \<in> set (started s)
     \<and> Source k \<notin> set (stopped s) \<and> StopSource k \<notin> snd ` set (timers s)"
proof -
  have "(\<exists>n\<in>set (in_edges (ToNode (Chain i TremoloGain)) s). n = Source k)
        = ((Source k, ToNode (Chain i TremoloGain)) \<in> set (edges s))"
    by (force simp add: in_edges_def)
  moreover have "k \<in> set (playing i s) \<longleftrightarrow>
     (\<exists>n\<in>set (in_edges (ToNode (Chain i TremoloGain)) s). n = Source k)
     \<and> Source k \<in> set (started s)
     \<and> Source k \<notin> set (stopped s) \<and> StopSource k \<notin> snd ` set (timers s)"
    by (auto simp add: playing_def split: node.splits)
  ultimately show ?thesis by simp
qed

lemma quiet_refl [simp]: "quiet s s"
  by (simp add: quiet_def)

lemma quiet_trans: "quiet s s1 \<Longrightarrow> quiet s1 s2 \<Longrightarrow> quiet s s2"
  unfolding quiet_def by (intro conjI allI impI; (elim conjE)?) (fastforce+)?

lemma source_inv_quiet:
  assumes "source_inv s" "quiet s s'"
  shows "source_inv s'"
proof -
  have sub: "k \<in> set (playing i s)" if "k \<in> set (playing i s')" for i k
    using that assms(2) unfolding playing_iff quiet_def by blast
  have a: "\<forall>i. \<forall>k\<in>set (playing i s'). fieldOf source s' i = Some (Some k)"
    using sub assms unfolding source_inv_def quiet_def by metis
  obtain kn where kn: "noiseSource s = Some kn" "kn < nextNode s"
    using assms(1) unfolding source_inv_def by (auto split: option.splits)
  have old: "k < nextNode s" if "(Source k, d) \<in> set (edges s)" for k d
    using assms(1) that unfolding source_inv_def by fastforce
  have b: "\<forall>e\<in>set (edges s'). case fst e of Source k \<Rightarrow> k < nextNode s' | _ \<Rightarrow> True"
  proof
    fix e assume e: "e \<in> set (edges s')"
    show "case fst e of Source k \<Rightarrow> k < nextNode s' | _ \<Rightarrow> True"
    proof (cases "fst e")
      case (Source k)
      with e have "(Source k, snd e) \<in> set (edges s')" by (metis prod.collapse)
      with assms(2) have "(Source k, snd e) \<in> set (edges s) \<or> noiseSource s = Some k"
        unfolding quiet_def by blast
      with old kn have "k < nextNode s" by auto
      with assms(2) Source show ?thesis unfolding quiet_def by simp
    qed simp_all
  qed
  have c: "case noiseSource s' of None \<Rightarrow> False | Some k \<Rightarrow> k < nextNode s'"
    using kn assms(2) unfolding quiet_def by simp
  from a b c show ?thesis unfolding source_inv_def by blast
qed

lemma quiet_connect: "quiet s s1 \<Longrightarrow> (\<forall>k. n \<noteq> Source k) \<Longrightarrow> quiet s (connect n d s1)"
  unfolding quiet_def by (auto simp add: fieldOf_def)

lemma quiet_connect_noise:
  "quiet s s1 \<Longrightarrow> noiseSource s = Some k \<Longrightarrow> quiet s (connect (Source k) (ToNode (Chain i SprayGain)) s1)"
  unfolding quiet_def by (auto simp add: fieldOf_def)

lemma quiet_disconnect: "quiet s s1 \<Longrightarrow> quiet s (disconnect n s1)"
  unfolding quiet_def by (auto simp add: fieldOf_def)

lemma quiet_start: "quiet s s1 \<Longrightarrow> (\<forall>k. n \<noteq> Source k) \<Longrightarrow> quiet s (start n s1)"
  unfolding quiet_def by (auto simp add: fieldOf_def)

lemma quiet_stop: "quiet s s1 \<Longrightarrow> quiet s (stop n s1)"
  unfolding quiet_def by (auto simp add: fieldOf_def)

lemma quiet_alloc: "quiet s s1 \<Longrightarrow> quiet s (alloc s1)"
  unfolding quiet_def by (auto simp add: fieldOf_def)

lemma quiet_assign: "quiet s s1 \<Longrightarrow> quiet s (assign p v s1)"
  unfolding quiet_def by (auto simp add: fieldOf_def)

lemma quiet_setValueAtTime: "quiet s s1 \<Longrightarrow> quiet s (setValueAtTime p v t s1)"
  unfolding quiet_def by (auto simp add: fieldOf_def)

lemma quiet_setTargetAtTime: "quiet s s1 \<Longrightarrow> quiet s (setTargetAtTime p v t tc s1)"
  unfolding quiet_def by (auto simp add: fieldOf_def)

lemma quiet_cancelScheduledValues: "quiet s s1 \<Longrightarrow> quiet s (cancelScheduledValues p t s1)"
  unfolding quiet_def by (auto simp add: fieldOf_def)

lemma quiet_setTimeout: "quiet s s1 \<Longrightarrow> quiet s (setTimeout cb ms s1)"
  unfolding quiet_def by (auto simp add: fieldOf_def)

lemma quiet_resume: "quiet s s1 \<Longrightarrow> quiet s (resume s1)"
  unfolding quiet_def by (auto simp add: fieldOf_def resume_def)

lemma quiet_tracks:
  "quiet s s1 \<Longrightarrow> (\<forall>j. map_option source (tr j) = map_option source (tracks s1 j)) \<Longrightarrow>
   quiet s (s1\<lparr>tracks := tr\<rparr>)"
  unfolding quiet_def by (auto simp add: fieldOf_def)

lemma quiet_trackIds: "quiet s s1 \<Longrightarrow> quiet s (s1\<lparr>trackIds := ti\<rparr>)"
  unfolding quiet_def by (auto simp add: fieldOf_def)

lemmas quiet_intros = quiet_connect quiet_disconnect quiet_start quiet_stop quiet_alloc
  quiet_assign quiet_setValueAtTime quiet_setTargetAtTime quiet_cancelScheduledValues
  quiet_setTimeout quiet_resume quiet_tracks quiet_trackIds quiet_refl

lemma quiet_updateTrackEQ: "quiet s s1 \<Longrightarrow> quiet s (updateTrackEQ t s1)"
  by (auto simp add: updateTrackEQ_def Let_def split: option.splits intro!: quiet_intros)

lemma quiet_volumeMute: "quiet s s1 \<Longrightarrow> quiet s (volumeMute t a s1)"
  by (auto simp add: volumeMute_def Let_def intro!: quiet_intros)

lemma quiet_panPitch: "quiet s s1 \<Longrightarrow> quiet s (panPitch t s1)"
  by (auto simp add: panPitch_def Let_def split: option.splits intro!: quiet_intros)

lemma quiet_granular: "quiet s s1 \<Longrightarrow> quiet s (granular t s1)"
  by (auto simp add: granular_def Let_def intro!: quiet_intros)

lemma quiet_feedbackLoop: "quiet s s1 \<Longrightarrow> quiet s (feedbackLoop t s1)"
  by (auto simp add: feedbackLoop_def Let_def split: option.splits intro!: quiet_intros)

lemma quiet_updateCrossfade: "quiet s s1 \<Longrightarrow> quiet s (updateCrossfade t s1)"
  by (auto simp add: updateCrossfade_def Let_def split: option.splits intro!: quiet_intros)

lemma quiet_manageLFO: "quiet s s1 \<Longrightarrow> manageLFO slot c i tp d s1 = Inr s' \<Longrightarrow> quiet s s'"
  by (auto simp add: manageLFO_def Let_def split: option.splits if_splits intro!: quiet_intros)

lemma quiet_updateTrackDrift: "quiet s s1 \<Longrightarrow> updateTrackDrift t rnd s1 = Inr s' \<Longrightarrow> quiet s s'"
  by (auto simp add: updateTrackDrift_def Let_def split: option.splits if_splits intro!: quiet_intros)

lemma quiet_killOsc: "quiet s s1 \<Longrightarrow> quiet s (killOsc x s1)"
  by (auto simp add: killOsc_def split: option.splits intro!: quiet_intros)

lemma quiet_resetParam: "quiet s s1 \<Longrightarrow> quiet s (resetParam p v s1)"
  by (auto simp add: resetParam_def intro!: quiet_intros)

lemma quiet_updateMasterVolume: "quiet s s1 \<Longrightarrow> quiet s (updateMasterVolume v s1)"
  by (auto simp add: updateMasterVolume_def intro!: quiet_intros)

lemma quiet_run_timer: "quiet s s1 \<Longrightarrow> quiet s (run_timer x s1)"
  by (cases x) (auto simp add: run_timer.simps Let_def split: option.splits intro!: quiet_intros)

lemma source_invD:
  assumes "source_inv s"
  shows "k \<in> set (playing i s) \<Longrightarrow> fieldOf source s i = Some (Some k)"
    and "(Source k, d) \<in> set (edges s) \<Longrightarrow> k < nextNode s"
    and "\<exists>kn. noiseSource s = Some kn \<and> kn < nextNode s"
proof -
  show "k \<in> set (playing i s) \<Longrightarrow> fieldOf source s i = Some (Some k)"
    using assms unfolding source_inv_def by blast
  show "(Source k, d) \<in> set (edges s) \<Longrightarrow> k < nextNode s"
    using assms unfolding source_inv_def by fastforce
  show "\<exists>kn. noiseSource s = Some kn \<and> kn < nextNode s"
    using assms unfolding source_inv_def by (auto split: option.splits)
qed

lemma source_invI:
  assumes "\<And>i k. k \<in> set (playing i s) \<Longrightarrow> fieldOf source s i = Some (Some k)"
    and "\<And>k d. (Source k, d) \<in> set (edges s) \<Longrightarrow> k < nextNode s"
    and "noiseSource s = Some kn" "kn < nextNode s"
  shows "source_inv s"
  unfolding source_inv_def
proof (intro conjI allI ballI)
  fix i k assume "k \<in> set (playing i s)"
  then show "fieldOf source s i = Some (Some k)" by (rule assms(1))
next
  fix e assume e: "e \<in> set (edges s)"
  show "case fst e of Source k \<Rightarrow> k < nextNode s | _ \<Rightarrow> True"
  proof (cases "fst e")
    case (Source k)
    with e have "(Source k, snd e) \<in> set (edges s)" by (metis prod.collapse)
    from assms(2)[OF this] Source show ?thesis by simp
  qed simp_all
next
  show "case noiseSource s of None \<Rightarrow> False | Some k \<Rightarrow> k < nextNode s"
    using assms(3,4) by simp
qed

lemma playTrack_guard:
  "tracks s (tid t) = None \<or> buffer t = None \<or> (\<exists>n k. tracks s (tid t) = Some n \<and> source n = Some k)
   \<Longrightarrow> playTrack t s = resume s"
  by (auto simp add: playTrack_def Let_def split: option.splits)

lemma playTrack_new:
  assumes "tracks s (tid t) = Some n" "buffer t \<noteq> None" "source n = None"
  shows "\<And>k d. (Source k, d) \<in> set (edges (playTrack t s)) \<Longrightarrow>
            (Source k, d) \<in> set (edges s) \<or> (k = nextNode s \<and> d = ToNode (Chain (tid t) TremoloGain))"
    and "set (started (playTrack t s)) = insert (Source (nextNode s)) (set (started s))"
    and "nextNode (playTrack t s) = Suc (nextNode s)"
    and "tracks (playTrack t s) = (tracks s)(tid t \<mapsto> n\<lparr>source := Some (nextNode s)\<rparr>)"
  using assms by (auto simp add: playTrack_def Let_def split: option.splits if_splits)

lemma playTrack_source_inv:
  assumes "source_inv s"
  shows "source_inv (playTrack t s)"
proof (cases "tracks s (tid t) = None \<or> buffer t = None
              \<or> (\<exists>n k. tracks s (tid t) = Some n \<and> source n = Some k)")
  case True
  from playTrack_guard[OF True] source_inv_quiet[OF assms quiet_resume[OF quiet_refl]]
  show ?thesis by simp
next
  case False
  then obtain n where n: "tracks s (tid t) = Some n" "buffer t \<noteq> None" "source n = None"
    by (cases "tracks s (tid t)") auto
  note new = playTrack_new[OF n]
  from source_invD(3)[OF assms] obtain kn where kn: "noiseSource s = Some kn" "kn < nextNode s"
    by blast
  show ?thesis
  proof (rule source_invI)
    fix i k assume k: "k \<in> set (playing i (playTrack t s))"
    then have e: "(Source k, ToNode (Chain i TremoloGain)) \<in> set (edges (playTrack t s))"
      and st: "Source k \<in> set (started (playTrack t s))"
      and ns: "Source k \<notin> set (stopped s)" "StopSource k \<notin> snd ` set (timers s)"
      unfolding playing_iff by simp_all
    from new(1)[OF e]
    show "fieldOf source (playTrack t s) i = Some (Some k)"
    proof
      assume old: "(Source k, ToNode (Chain i TremoloGain)) \<in> set (edges s)"
      from source_invD(2)[OF assms old] have "k \<noteq> nextNode s" by simp
      with st new(2) have "Source k \<in> set (started s)" by simp
      with old ns have "k \<in> set (playing i s)" unfolding playing_iff by simp
      from source_invD(1)[OF assms this] have src: "fieldOf source s i = Some (Some k)" .
      with n have "i \<noteq> tid t" by (auto simp add: fieldOf_def)
      with src new(4) show ?thesis by (simp add: fieldOf_def)
    next
      assume "k = nextNode s \<and> ToNode (Chain i TremoloGain) = ToNode (Chain (tid t) TremoloGain)"
      with new(4) show ?thesis by (simp add: fieldOf_def)
    qed
  next
    fix k d assume "(Source k, d) \<in> set (edges (playTrack t s))"
    from new(1)[OF this] source_invD(2)[OF assms, of k d] new(3)
    show "k < nextNode (playTrack t s)" by auto
  next
    show "noiseSource (playTrack t s) = Some kn" using kn by simp
    show "kn < nextNode (playTrack t s)" using kn new(3) by simp
  qed
qed

lemma stopTrack_idle:
  "(case tracks s i of None \<Rightarrow> True | Some n \<Rightarrow> source n = None) \<Longrightarrow> stopTrack i s = s"
  by (simp add: stopTrack_def split: option.splits)

lemma stopTrack_live:
  assumes "tracks s i = Some n" "source n = Some old"
  shows "\<And>k d. (Source k, d) \<in> set (edges (stopTrack i s)) \<Longrightarrow>
            (Source k, d) \<in> set (edges s) \<or> (noiseSource s = Some k \<and> d = ToNode (Chain i SprayGain))"
    and "timers (stopTrack i s) = timers s @ [(currentTime s + 100 / 1000, StopSource old)]"
    and "tracks (stopTrack i s) = (tracks s)(i \<mapsto> n\<lparr>source := None\<rparr>)"
  using assms by (auto simp add: stopTrack_def Let_def split: option.splits)

lemma stopTrack_source_inv:
  assumes "source_inv s"
  shows "source_inv (stopTrack i s)"
proof (cases "case tracks s i of None \<Rightarrow> True | Some n \<Rightarrow> source n = None")
  case True
  with stopTrack_idle[OF True] assms show ?thesis by simp
next
  case False
  then obtain n old where n: "tracks s i = Some n" "source n = Some old"
    by (cases "tracks s i") auto
  note live = stopTrack_live[OF n]
  from source_invD(3)[OF assms] obtain kn where kn: "noiseSource s = Some kn" "kn < nextNode s"
    by blast
  show ?thesis
  proof (rule source_invI)
    fix j k assume k: "k \<in> set (playing j (stopTrack i s))"
    then have e: "(Source k, ToNode (Chain j TremoloGain)) \<in> set (edges (stopTrack i s))"
      and st: "Source k \<in> set (started s)" "Source k \<notin> set (stopped s)"
      and tm: "StopSource k \<notin> snd ` set (timers (stopTrack i s))"
      unfolding playing_iff by simp_all
    from live(1)[OF e] have old: "(Source k, ToNode (Chain j TremoloGain)) \<in> set (edges s)" by auto
    from tm live(2) have "StopSource k \<notin> snd ` set (timers s)" "k \<noteq> old" by auto
    with old st have "k \<in> set (playing j s)" unfolding playing_iff by simp
    from source_invD(1)[OF assms this] have src: "fieldOf source s j = Some (Some k)" .
    with n \<open>k \<noteq> old\<close> have "j \<noteq> i" by (auto simp add: fieldOf_def)
    with src live(3) show "fieldOf source (stopTrack i s) j = Some (Some k)"
      by (simp add: fieldOf_def)
  next
    fix k d assume "(Source k, d) \<in> set (edges (stopTrack i s))"
    from live(1)[OF this] source_invD(2)[OF assms, of k d] kn
    show "k < nextNode (stopTrack i s)" by auto
  next
    show "noiseSource (stopTrack i s) = Some kn" using kn by simp
    show "kn < nextNode (stopTrack i s)" using kn by simp
  qed
qed

lemma transport_source_inv: "source_inv s \<Longrightarrow> source_inv (transport t s)"
  by (simp add: transport_def playTrack_source_inv stopTrack_source_inv split: option.splits)

lemma paramsHead_source_inv:
  assumes "source_inv s"
  shows "source_inv (paramsHead t a s)"
proof -
  have "quiet (transport t s) (paramsHead t a s)"
    unfolding paramsHead_def Let_def
    by (intro quiet_setTargetAtTime quiet_updateTrackEQ quiet_panPitch quiet_volumeMute quiet_refl)
  with transport_source_inv[OF assms] show ?thesis by (rule source_inv_quiet)
qed

lemma quiet_updateTrackLFOs:
  assumes "quiet s s1" "updateTrackLFOs t s1 = Inr s'"
  shows "quiet s s'"
  using assms(2)
proof (cases rule: updateTrackLFOs_cases)
  case 1 with assms(1) show ?thesis by simp
next
  case (2 n sa sb)
  from quiet_manageLFO[OF quiet_manageLFO[OF quiet_manageLFO[OF assms(1) 2(2)] 2(3)] 2(4)]
  show ?thesis .
qed

lemma quiet_paramsTail: "quiet s s1 \<Longrightarrow> quiet s (paramsTail t s1)"
  unfolding paramsTail_def Let_def
  by (auto intro!: quiet_feedbackLoop quiet_granular quiet_updateCrossfade)

lemma updateTrackParams_source_inv:
  assumes "source_inv s" "updateTrackParams t mv a sid rnd s = Inr s'"
  shows "source_inv s'"
  using assms(2)
proof (cases rule: updateTrackParams_cases)
  case 1 with assms(1) show ?thesis by simp
next
  case (2 n s1 s2)
  have "quiet (paramsHead t a s) s'"
    unfolding 2(4)
    by (rule quiet_paramsTail[OF quiet_updateTrackDrift[OF quiet_updateTrackLFOs[OF quiet_refl 2(2)] 2(3)]])
  with paramsHead_source_inv[OF assms(1)] show ?thesis by (rule source_inv_quiet)
qed

lemma quiet_new_track:
  "quiet s s1 \<Longrightarrow> tracks s i = None \<Longrightarrow>
   quiet s (s1\<lparr>tracks := (tracks s1)(i \<mapsto> n), trackIds := ti\<rparr>)"
  unfolding quiet_def by (auto simp add: fieldOf_def)

lemma quiet_noise_connect:
  "quiet s s1 \<Longrightarrow> noiseSource s1 = noiseSource s \<Longrightarrow>
   quiet s (case noiseSource s1 of None \<Rightarrow> s1
            | Some n \<Rightarrow> connect (Source n) (ToNode (Chain i SprayGain)) s1)"
  by (cases "noiseSource s") (simp_all add: quiet_connect_noise)

lemma quiet_initChain:
  assumes "tracks s (tid t) = None"
  shows "quiet s (initChain t s)"
  unfolding initChain_def Let_def
  by (intro quiet_new_track quiet_assign quiet_connect quiet_noise_connect quiet_refl assms; simp)

lemma initTrack_source_inv:
  assumes "source_inv s" "initTrack t rnd s = Inr s'"
  shows "source_inv s'"
  using assms(2)
proof (cases rule: initTrack_cases)
  case 1 with assms(1) show ?thesis by simp
next
  case (2 s1 s2)
  have "quiet s s'"
    unfolding 2(4)
    by (rule quiet_updateTrackEQ[OF quiet_updateTrackDrift[OF
          quiet_updateTrackLFOs[OF quiet_initChain[OF 2(1)] 2(2)] 2(3)]])
  with assms(1) show ?thesis by (rule source_inv_quiet)
qed

lemma resetTrack_source_inv:
  assumes "source_inv s"
  shows "source_inv (resetTrack i s)"
proof -
  have "quiet (stopTrack i s) (resetTrack i s)"
  proof (cases "tracks (stopTrack i s) i")
    case None
    show ?thesis unfolding resetTrack_def Let_def None option.case by simp
  next
    case (Some nodes)
    show ?thesis
      unfolding resetTrack_def Let_def Some option.case
      by (intro quiet_resetParam quiet_tracks quiet_killOsc quiet_refl allI) (simp add: Some)
  qed
  with stopTrack_source_inv[OF assms] show ?thesis by (rule source_inv_quiet)
qed

lemma fold_resetTrack_source_inv: "source_inv s \<Longrightarrow> source_inv (fold resetTrack is s)"
  by (induction "is" arbitrary: s) (simp_all add: resetTrack_source_inv)

lemma reset_source_inv:
  assumes "source_inv s"
  shows "source_inv (reset s)"
proof -
  let ?s1 = "fold resetTrack (trackIds s) s"
  have s1: "source_inv ?s1" by (rule fold_resetTrack_source_inv[OF assms])
  from source_invD(3)[OF s1] obtain kn where "noiseSource ?s1 = Some kn" by blast
  then have "reset s = updateMasterVolume 0.8 ?s1" by (simp add: reset_def Let_def)
  with source_inv_quiet[OF s1 quiet_updateMasterVolume[OF quiet_refl]] show ?thesis by simp
qed

lemma fold_run_timer_quiet:
  "quiet s s1 \<Longrightarrow> quiet s (fold (\<lambda>x. run_timer (snd x)) xs s1)"
  for xs :: "(real \<times> timer) list"
  by (induction xs arbitrary: s1) (simp_all add: quiet_run_timer)

lemma run_timer_stops: "Source k \<in> set (stopped (run_timer (StopSource k) s))"
  by (simp add: run_timer.simps)

lemma fold_run_timer_stops:
  fixes xs :: "(real \<times> timer) list"
  assumes "x \<in> set xs" "snd x = StopSource k"
  shows "Source k \<in> set (stopped (fold (\<lambda>x. run_timer (snd x)) xs s))"
  using assms(1)
proof (induction xs arbitrary: s)
  case Nil then show ?case by simp
next
  case (Cons y ys)
  show ?case
  proof (cases "x = y")
    case True
    have "quiet (run_timer (snd y) s) (fold (\<lambda>x. run_timer (snd x)) ys (run_timer (snd y) s))"
      by (rule fold_run_timer_quiet[OF quiet_refl])
    then have "set (stopped (run_timer (snd y) s))
               \<subseteq> set (stopped (fold (\<lambda>x. run_timer (snd x)) ys (run_timer (snd y) s)))"
      unfolding quiet_def by blast
    with run_timer_stops[of k s] True assms(2) show ?thesis by auto
  next
    case False
    with Cons.prems have "x \<in> set ys" by simp
    from Cons.IH[OF this] show ?thesis by simp
  qed
qed

lemma advance_source_inv:
  assumes "source_inv s"
  shows "source_inv (advance dt s)"
proof -
  define t where "t = currentTime s + dt"
  define due where "due = filter (\<lambda>x. fst x \<le> t) (timers s)"
  define rest where "rest = filter (\<lambda>x. \<not> fst x \<le> t) (timers s)"
  define s0 where "s0 = s\<lparr>currentTime := t, timers := rest\<rparr>"
  define s' where "s' = fold (\<lambda>x. run_timer (snd x)) (sort_key fst due) s0"
  have adv: "advance dt s = s'"
    by (simp add: advance_def Let_def s'_def s0_def due_def rest_def t_def)
  have q: "quiet s0 s'" unfolding s'_def by (rule fold_run_timer_quiet[OF quiet_refl])
  have s0: "edges s0 = edges s" "started s0 = started s" "stopped s0 = stopped s"
    "timers s0 = rest" "nextNode s0 = nextNode s" "noiseSource s0 = noiseSource s"
    "tracks s0 = tracks s"
    by (simp_all add: s0_def)
  have split: "set (timers s) = set due \<union> set rest"
    by (auto simp add: due_def rest_def)
  from source_invD(3)[OF assms] obtain kn where kn: "noiseSource s = Some kn" "kn < nextNode s"
    by blast
  have "source_inv s'"
  proof (rule source_invI)
    fix i k assume k: "k \<in> set (playing i s')"
    then have e: "(Source k, ToNode (Chain i TremoloGain)) \<in> set (edges s')"
      and st: "Source k \<in> set (started s')" and ns: "Source k \<notin> set (stopped s')"
      and tm: "StopSource k \<notin> snd ` set (timers s')"
      unfolding playing_iff by simp_all
    from q e have e0: "(Source k, ToNode (Chain i TremoloGain)) \<in> set (edges s)"
      unfolding quiet_def s0(1)[symmetric] by blast
    from q st have st0: "Source k \<in> set (started s)" unfolding quiet_def s0(2)[symmetric] by blast
    from q ns have ns0: "Source k \<notin> set (stopped s)" unfolding quiet_def s0(3)[symmetric] by blast
    from q tm have r: "StopSource k \<notin> snd ` set rest"
      unfolding quiet_def s0(4)[symmetric] by blast
    have d: "StopSource k \<notin> snd ` set due"
    proof
      assume "StopSource k \<in> snd ` set due"
      then obtain x where "x \<in> set (sort_key fst due)" "snd x = StopSource k" by auto
      from fold_run_timer_stops[OF this, of s0] ns show False by (simp add: s'_def)
    qed
    from r d have "StopSource k \<notin> snd ` set (timers s)" unfolding split by blast
    with e0 st0 ns0 have "k \<in> set (playing i s)" unfolding playing_iff by simp
    from source_invD(1)[OF assms this] have "fieldOf source s0 i = Some (Some k)"
      by (simp add: fieldOf_def s0(7))
    with q show "fieldOf source s' i = Some (Some k)" unfolding quiet_def by blast
  next
    fix k d assume "(Source k, d) \<in> set (edges s')"
    with q have "(Source k, d) \<in> set (edges s) \<or> noiseSource s = Some k"
      unfolding quiet_def s0(1)[symmetric] s0(6)[symmetric] by blast
    with source_invD(2)[OF assms, of k d] kn have "k < nextNode s" by auto
    with q show "k < nextNode s'" unfolding quiet_def s0(5)[symmetric] by simp
  next
    from q kn show "noiseSource s' = Some kn" unfolding quiet_def s0(6)[symmetric] by simp
    from q kn show "kn < nextNode s'" unfolding quiet_def s0(5)[symmetric] by simp
  qed
  with adv show ?thesis by simp
qed

lemma step_source_inv:
  assumes "source_inv s" "step c s = Inr s'"
  shows "source_inv s'"
proof (cases c)
  case (InitTrack t rnd)
  with assms initTrack_source_inv[of s t rnd s'] show ?thesis by simp
next
  case (PlayTrack t)
  with assms playTrack_source_inv[of s t] show ?thesis by auto
next
  case (StopTrack i)
  with assms stopTrack_source_inv[of s i] show ?thesis by auto
next
  case (UpdateTrackParams t mv a sid rnd)
  with assms updateTrackParams_source_inv[of s t mv a sid rnd s'] show ?thesis by simp
next
  case Reset
  with assms reset_source_inv[of s] show ?thesis by auto
next
  case (Advance dt)
  with assms advance_source_inv[of s dt] show ?thesis by auto
qed

lemma source_inv_new [simp]: "source_inv (AudioEngine_new st)"
proof (rule source_invI)
  have e: "set (edges (AudioEngine_new st)) =
        {(MasterGain, ToNode Compressor), (Compressor, ToNode Analyser),
         (Analyser, ToNode CtxDestination), (Analyser, ToNode StreamDest),
         (ReverbGain, ToNode MasterGain), (ReverbConvolver, ToNode ReverbGain)}"
    by (auto simp add: AudioEngine_new_def startGlobalNoise_def Let_def alloc_def)
  show "k \<in> set (playing i (AudioEngine_new st)) \<Longrightarrow>
        fieldOf source (AudioEngine_new st) i = Some (Some k)" for i k
    unfolding playing_iff e by simp
  show "(Source k, d) \<in> set (edges (AudioEngine_new st)) \<Longrightarrow> k < nextNode (AudioEngine_new st)" for k d
    unfolding e by simp
  show "noiseSource (AudioEngine_new st) = Some 0" by simp
  show "0 < nextNode (AudioEngine_new st)" by simp
qed

lemma source_inv_single:
  assumes "source_inv s"
  shows "length (remdups (playing i s)) \<le> 1"
proof (cases "playing i s")
  case Nil
  then show ?thesis by simp
next
  case (Cons k ks)
  then have k: "k \<in> set (playing i s)" by simp
  have "set (playing i s) \<subseteq> {k}"
  proof
    fix k' assume "k' \<in> set (playing i s)"
    from source_invD(1)[OF assms this] source_invD(1)[OF assms k] show "k' \<in> {k}" by simp
  qed
  then have "card (set (playing i s)) \<le> card {k}" by (intro card_mono) simp_all
  then show ?thesis by (simp add: length_remdups_card_conv)
qed

lemma demoTrack_fields [simp]:
  "tid demoTrack = 0" "buffer demoTrack = Some demoBuffer" "enabled (lfoPitch demoTrack) = False"
  "isMuted demoTrack = False" "isPlaying demoTrack = False"
  by (simp_all add: demoTrack_def)

lemma run_source_inv:
  assumes "run cs (AudioEngine_new st) = Inr s"
  shows "source_inv s"
  by (rule run_invariant[OF assms, where P=source_inv]) (simp_all add: step_source_inv)

lemma live_sources_iff:
  "k \<in> set (live_sources i s) \<longleftrightarrow>
     (Source k, ToNode (Chain i TremoloGain)) \<in> set (edges s) \<and> Source k \<in> set (started s)
     \<and> Source k \<notin> set (stopped s)"
proof -
  have "(\<exists>n\<in>set (in_edges (ToNode (Chain i TremoloGain)) s). n = Source k)
        = ((Source k, ToNode (Chain i TremoloGain)) \<in> set (edges s))"
    by (force simp add: in_edges_def)
  moreover have "k \<in> set (live_sources i s) \<longleftrightarrow>
     (\<exists>n\<in>set (in_edges (ToNode (Chain i TremoloGain)) s). n = Source k)
     \<and> Source k \<in> set (started s) \<and> Source k \<notin> set (stopped s)"
    by (auto simp add: live_sources_def split: node.splits)
  ultimately show ?thesis by simp
qed

lemma playing_live:
  "set (playing i s) = set (filter (\<lambda>k. StopSource k \<notin> snd ` set (timers s)) (live_sources i s))"
proof (rule set_eqI)
  fix k
  show "k \<in> set (playing i s)
      \<longleftrightarrow> k \<in> set (filter (\<lambda>k. StopSource k \<notin> snd ` set (timers s)) (live_sources i s))"
    unfolding set_filter mem_Collect_eq playing_iff live_sources_iff by blast
qed

lemma live_sources_resume [simp]: "live_sources i (resume s) = live_sources i s"
proof -
  have "edges (resume s) = edges s" "started (resume s) = started s" "stopped (resume s) = stopped s"
    by (simp_all add: resume_def)
  then show ?thesis unfolding live_sources_def in_edges_def by (simp only:)
qed

text \<open>
  C10, as the code has it. When the track id is not in the table, the track has no buffer or
  the track has an active source, \<open>playTrack\<close> does nothing but resume the audio context if
  it is suspended: with a running context it returns the state it was given, and in no case
  does it create, connect or start a source or touch the table. After every sequence of calls
  of the engine, a buffer source that sounds into a track (connected, started, not stopped)
  is the track's \<open>source\<close> unless \<open>stopTrack\<close> has released it and its stop callback is
  still pending; so at most one source sounds into a track apart from those released.
\<close>

theorem active_source_guard:
  "((tracks s (tid t) = None \<or> buffer t = None
       \<or> (\<exists>n k. tracks s (tid t) = Some n \<and> source n = Some k))
      \<longrightarrow> playTrack t s = resume s \<and> (ctxState s = Running \<longrightarrow> playTrack t s = s)
          \<and> tracks (playTrack t s) = tracks s
          \<and> (\<forall>i. live_sources i (playTrack t s) = live_sources i s))
   \<and> (\<exists>s1. run cs (AudioEngine_new st) = Inr s1
         \<and> (\<forall>i. (\<forall>k\<in>set (live_sources i s1).
                     fieldOf source s1 i = Some (Some k) \<or> StopSource k \<in> snd ` set (timers s1))
                \<and> length (remdups (filter (\<lambda>k. StopSource k \<notin> snd ` set (timers s1))
                                     (live_sources i s1))) \<le> 1))"
proof -
  from run_ok[OF engine_ok_new, of cs st] obtain s1 where s1: "run cs (AudioEngine_new st) = Inr s1"
    by blast
  note inv = run_source_inv[OF s1]
  have a: "fieldOf source s1 i = Some (Some k) \<or> StopSource k \<in> snd ` set (timers s1)"
    if "k \<in> set (live_sources i s1)" for i k
  proof (cases "StopSource k \<in> snd ` set (timers s1)")
    case False
    with that have "k \<in> set (playing i s1)" by (simp add: playing_live)
    from source_invD(1)[OF inv this] show ?thesis by simp
  qed simp
  have b: "length (remdups (filter (\<lambda>k. StopSource k \<notin> snd ` set (timers s1)) (live_sources i s1))) \<le> 1"
    for i
  proof -
    have "length (remdups (filter (\<lambda>k. StopSource k \<notin> snd ` set (timers s1)) (live_sources i s1)))
        = card (set (playing i s1))"
      by (simp only: length_remdups_card_conv playing_live)
    also have "\<dots> = length (remdups (playing i s1))" by (simp add: length_remdups_card_conv)
    finally show ?thesis using source_inv_single[OF inv, of i] by simp
  qed
  have g: "playTrack t s = resume s"
    if "tracks s (tid t) = None \<or> buffer t = None
       \<or> (\<exists>n k. tracks s (tid t) = Some n \<and> source n = Some k)"
    using playTrack_guard[OF that] .
  have "\<exists>s1. run cs (AudioEngine_new st) = Inr s1
         \<and> (\<forall>i. (\<forall>k\<in>set (live_sources i s1).
                     fieldOf source s1 i = Some (Some k) \<or> StopSource k \<in> snd ` set (timers s1))
                \<and> length (remdups (filter (\<lambda>k. StopSource k \<notin> snd ` set (timers s1))
                                     (live_sources i s1))) \<le> 1)"
    using s1 a b by blast
  moreover have "(tracks s (tid t) = None \<or> buffer t = None
       \<or> (\<exists>n k. tracks s (tid t) = Some n \<and> source n = Some k))
      \<longrightarrow> playTrack t s = resume s \<and> (ctxState s = Running \<longrightarrow> playTrack t s = s)
          \<and> tracks (playTrack t s) = tracks s
          \<and> (\<forall>i. live_sources i (playTrack t s) = live_sources i s)"
  proof
    assume h: "tracks s (tid t) = None \<or> buffer t = None
       \<or> (\<exists>n k. tracks s (tid t) = Some n \<and> source n = Some k)"
    have r: "ctxState s = Running \<longrightarrow> resume s = s" "tracks (resume s) = tracks s"
      by (simp_all add: resume_def)
    show "playTrack t s = resume s \<and> (ctxState s = Running \<longrightarrow> playTrack t s = s)
          \<and> tracks (playTrack t s) = tracks s
          \<and> (\<forall>i. live_sources i (playTrack t s) = live_sources i s)"
      unfolding g[OF h] using r by simp
  qed
  ultimately show ?thesis by blast
qed

lemma replayEngine_run:
  "run [InitTrack demoTrack 0, InitTrack (createDefaultTrack 1) 0, PlayTrack demoTrack, StopTrack 0,
        PlayTrack demoTrack] (AudioEngine_new Running) = Inr replayEngine"
  by (simp add: initTrack_plain demoEngine_def replayEngine_def demoTrack_def initChain_def
      updateTrackEQ_def Let_def)

lemma replayEngine_live: "live_sources 0 replayEngine = [2, 1]"
  by (simp add: live_sources_def in_edges_def replayEngine_def playTrack_def stopTrack_def Let_def
      demoEngine_def initChain_def updateTrackEQ_def AudioEngine_new_def startGlobalNoise_def
      emptyNodes_def resume_def)

lemma replayEngine_fields:
  "fieldOf source replayEngine 0 = Some (Some 2)" "timers replayEngine = [(1 / 10, StopSource 1)]"
  by (simp_all add: fieldOf_def replayEngine_def playTrack_def stopTrack_def Let_def
      demoEngine_def emptyNodes_def)

theorem active_source_guard_witness:
  "(tracks demoEngine (tid (createDefaultTrack 0)) = None \<or> buffer (createDefaultTrack 0) = None
       \<or> (\<exists>n k. tracks demoEngine (tid (createDefaultTrack 0)) = Some n \<and> source n = Some k))
   \<and> ctxState demoEngine = Running
   \<and> playTrack (createDefaultTrack 0) demoEngine = demoEngine
   \<and> run [InitTrack demoTrack 0, InitTrack (createDefaultTrack 1) 0, PlayTrack demoTrack, StopTrack 0,
           PlayTrack demoTrack] (AudioEngine_new Running) = Inr replayEngine
   \<and> live_sources 0 replayEngine = [2, 1]
   \<and> fieldOf source replayEngine 0 = Some (Some 2)
   \<and> StopSource 1 \<in> snd ` set (timers replayEngine)
   \<and> length (remdups (filter (\<lambda>k. StopSource k \<notin> snd ` set (timers replayEngine))
                        (live_sources 0 replayEngine))) \<le> 1"
  using active_source_guard[of demoEngine "createDefaultTrack 0"
          "[InitTrack demoTrack 0, InitTrack (createDefaultTrack 1) 0, PlayTrack demoTrack, StopTrack 0,
            PlayTrack demoTrack]" Running]
  by (simp add: replayEngine_run replayEngine_live replayEngine_fields resume_def del: run.simps)

text \<open>
  The claim fails in two ways. With a suspended context \<open>playTrack\<close> changes the state also
  where it was claimed to change nothing: for an id that is not in the table, and for a track
  without a buffer. And after play, stop and play again, the second play coming before the
  callback that stops the first source, two sources are started, not stopped and connected to
  the track.
\<close>

theorem active_source_counterexample:
  "tracks (AudioEngine_new Suspended) (tid (createDefaultTrack 0)) = None
   \<and> playTrack (createDefaultTrack 0) (AudioEngine_new Suspended) \<noteq> AudioEngine_new Suspended
   \<and> buffer (createDefaultTrack 0) = None
   \<and> playTrack (createDefaultTrack 0) (initChain (createDefaultTrack 0) (AudioEngine_new Suspended))
       \<noteq> initChain (createDefaultTrack 0) (AudioEngine_new Suspended)
   \<and> run [InitTrack demoTrack 0, InitTrack (createDefaultTrack 1) 0, PlayTrack demoTrack, StopTrack 0,
           PlayTrack demoTrack] (AudioEngine_new Running) = Inr replayEngine
   \<and> live_sources 0 replayEngine = [2, 1]"
proof -
  have a: "ctxState s = Suspended \<Longrightarrow> resume s \<noteq> s" for s
  proof
    assume "ctxState s = Suspended" "resume s = s"
    then have "ctxState (resume s) = Suspended" by simp
    with \<open>ctxState s = Suspended\<close> show False by (simp add: resume_def)
  qed
  have "playTrack (createDefaultTrack 0) (AudioEngine_new Suspended) = resume (AudioEngine_new Suspended)"
    by (rule playTrack_guard) simp
  moreover have "playTrack (createDefaultTrack 0) (initChain (createDefaultTrack 0) (AudioEngine_new Suspended))
       = resume (initChain (createDefaultTrack 0) (AudioEngine_new Suspended))"
    by (rule playTrack_guard) simp
  ultimately show ?thesis using a[of "AudioEngine_new Suspended"]
      a[of "initChain (createDefaultTrack 0) (AudioEngine_new Suspended)"]
      replayEngine_run replayEngine_live by simp
qed

subsection \<open>C7: the bytes of a WAV file\<close>

lemma trunc_of_int [simp]: "trunc (of_int k) = k"
  by (simp add: trunc_def)

lemma trunc_of_nat [simp]: "trunc (of_nat n) = int n"
  using trunc_of_int[of "int n"] by (simp del: trunc_of_int)

lemma trunc_numeral [simp]: "trunc (numeral k) = numeral k" "trunc 1 = 1" "trunc 0 = 0"
  by (simp_all add: trunc_def)

lemma length_ascii [simp]: "length (ascii cs) = length cs"
  by (simp add: ascii_def)

lemma length_u16le [simp]: "length (u16le n) = 2"
  by (simp add: u16le_def)

lemma length_u32le [simp]: "length (u32le n) = 4"
  by (simp add: u32le_def)

text \<open>Writing behind a prefix leaves the prefix alone.\<close>

lemma setUint8_shift:
  "length p \<le> off \<Longrightarrow> setUint8 (p @ v) off x = p @ setUint8 v (off - length p) x"
  by (simp add: setUint8_def list_update_append)

lemma writeString_shift:
  "length p \<le> off \<Longrightarrow> writeString (p @ v) off cs = p @ writeString v (off - length p) cs"
proof (induction cs arbitrary: v off)
  case Nil
  then show ?case by simp
next
  case (Cons c cs)
  then have "Suc off - length p = Suc (off - length p)" by simp
  with Cons show ?case by (simp add: setUint8_shift)
qed

lemma setUint16_shift:
  "length p \<le> off \<Longrightarrow> setUint16 (p @ v) off x = p @ setUint16 v (off - length p) x"
  by (simp add: setUint16_def list_update_append Suc_diff_le)

lemma setInt16_shift:
  "length p \<le> off \<Longrightarrow> setInt16 (p @ v) off x = p @ setInt16 v (off - length p) x"
  by (simp add: setInt16_def list_update_append Suc_diff_le)

lemma setUint32_shift:
  "length p \<le> off \<Longrightarrow> setUint32 (p @ v) off x = p @ setUint32 v (off - length p) x"
proof -
  assume a: "length p \<le> off"
  then have "off + 1 - length p = off - length p + 1" "off + 2 - length p = off - length p + 2"
    "off + 3 - length p = off - length p + 3" by simp_all
  with a show ?thesis by (simp add: setUint32_def list_update_append)
qed

lemma writeSamples_shift:
  "length p \<le> off \<Longrightarrow> writeSamples (p @ v) off xs = p @ writeSamples v (off - length p) xs"
proof (induction xs arbitrary: v off)
  case Nil
  then show ?case by simp
next
  case (Cons x xs)
  then have "off + 2 - length p = off - length p + 2" by simp
  with Cons show ?case by (simp add: setInt16_shift)
qed

text \<open>Writing at the start of a zeroed area.\<close>

lemma writeString_fresh:
  "length cs \<le> m \<Longrightarrow> writeString (replicate m z) 0 cs = ascii cs @ replicate (m - length cs) z"
proof (induction cs arbitrary: m)
  case Nil
  then show ?case by (simp add: ascii_def)
next
  case (Cons c cs)
  then obtain m' where m: "m = Suc m'" by (cases m) auto
  with Cons.prems have le: "length cs \<le> m'" by simp
  have "writeString (replicate m z) 0 (c # cs)
      = writeString ([word_of_int (int (of_char c))] @ replicate m' z) 1 cs"
    by (simp add: m setUint8_def)
  also have "\<dots> = [word_of_int (int (of_char c))] @ writeString (replicate m' z) 0 cs"
    by (subst writeString_shift) simp_all
  finally show ?case using Cons.IH[OF le] by (simp add: m ascii_def)
qed

lemma setUint16_fresh:
  "2 \<le> m \<Longrightarrow> setUint16 (replicate m z) 0 x = u16le (trunc x) @ replicate (m - 2) z"
proof -
  assume "2 \<le> m"
  then obtain k where "m = Suc (Suc k)" by (metis One_nat_def Suc_1 Suc_le_D Suc_le_mono)
  then show ?thesis by (simp add: setUint16_def u16le_def)
qed

lemma setInt16_fresh:
  "2 \<le> m \<Longrightarrow> setInt16 (replicate m z) 0 x = u16le (trunc x) @ replicate (m - 2) z"
proof -
  assume "2 \<le> m"
  then obtain k where "m = Suc (Suc k)" by (metis One_nat_def Suc_1 Suc_le_D Suc_le_mono)
  then show ?thesis by (simp add: setInt16_def u16le_def)
qed

lemma setUint32_fresh:
  "4 \<le> m \<Longrightarrow> setUint32 (replicate m z) 0 x = u32le (trunc x) @ replicate (m - 4) z"
proof -
  assume "4 \<le> m"
  then have "m = Suc (Suc (Suc (Suc (m - 4))))" by simp
  then obtain k where "m = Suc (Suc (Suc (Suc k)))" ..
  then show ?thesis by (simp add: setUint32_def u32le_def numeral_3_eq_3 numeral_2_eq_2)
qed

lemma quantize_pcm16: "trunc (quantize x) = pcm16 x"
proof -
  have "max (- 1) (min 1 x) = (if x < - 1 then - 1 else if 1 < x then 1 else x)" by simp
  then show ?thesis by (simp only: quantize_def pcm16_def Let_def)
qed

lemma writeSamples_fresh:
  "2 * length xs \<le> m \<Longrightarrow>
   writeSamples (replicate m z) 0 xs
     = concat (map (\<lambda>x. u16le (pcm16 x)) xs) @ replicate (m - 2 * length xs) z"
proof (induction xs arbitrary: m)
  case Nil
  then show ?case by simp
next
  case (Cons x xs)
  then have m: "2 \<le> m" "2 * length xs \<le> m - 2" by simp_all
  have "writeSamples (replicate m z) 0 (x # xs)
      = writeSamples (u16le (pcm16 x) @ replicate (m - 2) z) 2 xs"
    by (simp add: setInt16_fresh[OF m(1)] quantize_pcm16 numeral_2_eq_2)
  also have "\<dots> = u16le (pcm16 x) @ writeSamples (replicate (m - 2) z) 0 xs"
    by (subst writeSamples_shift) simp_all
  finally show ?case using Cons.IH[OF m(2)] by simp
qed

text \<open>The interleaving loop.\<close>

lemma interleave_loop:
  assumes f: "f = (\<lambda>i result. (result[i * 2 := left ! i])[i * 2 + 1 := right ! i])"
  shows "k \<le> n \<Longrightarrow>
   fold f [0..<k] (replicate (2 * n) z)
     = concat (map (\<lambda>i. [left ! i, right ! i]) [0..<k]) @ replicate (2 * n - 2 * k) z"
proof (induction k)
  case 0
  then show ?case by simp
next
  case (Suc k)
  let ?A = "concat (map (\<lambda>i. [left ! i, right ! i]) [0..<k])"
  have len: "length ?A = k * 2" by (induction k) simp_all
  from Suc.prems have "2 * n - 2 * k = Suc (Suc (2 * n - 2 * Suc k))" by simp
  then obtain r where r: "2 * n - 2 * k = Suc (Suc r)" "r = 2 * n - 2 * Suc k" by blast
  have "fold f [0..<Suc k] (replicate (2 * n) z) = f k (fold f [0..<k] (replicate (2 * n) z))"
    by simp
  also have "\<dots> = f k (?A @ replicate (2 * n - 2 * k) z)" using Suc by simp
  also have "\<dots> = (?A @ [left ! k, right ! k]) @ replicate r z"
    by (simp add: f list_update_append len r(1))
  finally show ?case by (simp add: r(2))
qed

lemma interleave_zip:
  "interleave (getChannelData b 0) (getChannelData b 1) = zipLR b"
proof -
  have "interleave (getChannelData b 0) (getChannelData b 1)
      = concat (map (\<lambda>i. [getChannelData b 0 ! i, getChannelData b 1 ! i]) [0..<frames b])"
    using interleave_loop[OF refl, of "frames b" "frames b" "getChannelData b 0" "getChannelData b 1" 0]
    by (simp add: interleave_def getChannelData_def mult_2)
  also have "\<dots> = zipLR b"
    unfolding zipLR_def by (rule arg_cong[where f=concat], rule map_cong) (simp_all add: getChannelData_def)
  finally show ?thesis .
qed


lemma wav_result:
  "(if numberOfChannels b = 2 then interleave (getChannelData b 0) (getChannelData b 1)
    else getChannelData b 0) = wavSamples b"
  using interleave_zip[of b] by (simp add: wavSamples_def)

lemma trunc_lengths [simp]:
  "trunc (36 + real n * 2) = 36 + 2 * int n" "trunc (real n * 2) = 2 * int n"
  using trunc_of_nat[of "36 + n * 2"] trunc_of_nat[of "n * 2"]
  by (simp_all del: trunc_of_nat add: mult.commute)

lemma pcm16_range: "- 32768 \<le> pcm16 x \<and> pcm16 x \<le> 32767"
proof -
  have a: "\<lceil>y * 32768\<rceil> \<ge> - 32768" if "- 1 \<le> y" for y :: real
  proof -
    from that have "- 32768 \<le> y * 32768" by simp
    then have "\<lceil>- 32768 :: real\<rceil> \<le> \<lceil>y * 32768\<rceil>" by (rule ceiling_mono)
    then show ?thesis by simp
  qed
  have b: "\<lceil>y * 32768\<rceil> \<le> 0" if "y < 0" for y :: real
  proof -
    from that have "y * 32768 \<le> 0" by simp
    then have "\<lceil>y * 32768\<rceil> \<le> \<lceil>0 :: real\<rceil>" by (rule ceiling_mono)
    then show ?thesis by simp
  qed
  have c: "\<lfloor>y * 32767\<rfloor> \<le> 32767" if "y \<le> 1" for y :: real
  proof -
    from that have "y * 32767 \<le> 32767" by simp
    then have "\<lfloor>y * 32767\<rfloor> \<le> \<lfloor>32767 :: real\<rfloor>" by (rule floor_mono)
    then show ?thesis by simp
  qed
  have d: "0 \<le> \<lfloor>y * 32767\<rfloor>" if "0 \<le> y" for y :: real
    using that by simp
  show ?thesis
    using a[of x] b[of x] c[of x] d[of x]
    by (auto simp add: pcm16_def trunc_def Let_def not_less)
qed

text \<open>
  C7. For a buffer with at least one channel \<open>audioBufferToWav\<close> returns exactly the bytes
  of the contract: \<open>RIFF\<close>, the length of the rest, \<open>WAVE\<close>, a \<open>fmt\<close> chunk of 16 bytes with
  format tag 1, the channel count, the sample rate, the byte rate (sample rate times block
  align), the block align (two bytes per channel) and the bit depth 16, then a \<open>data\<close> chunk
  with its length and the samples, left and right in turn when there are two channels, each
  clamped to the interval from -1 to 1, scaled by 32768 below zero and by 32767 otherwise,
  truncated, and written as a 16-bit two's complement number, low byte first. The quantised
  sample always fits in 16 bits. (With a channel count other than two the samples are those of
  channel 0. JavaScript numbers are taken as reals, so a NaN sample is outside the model.)
\<close>

theorem wav_bit_exact:
  assumes "numberOfChannels b \<noteq> 0"
  shows "audioBufferToWav b = Inr (wavContract b)
         \<and> length (wavContract b) = 44 + 2 * length (wavSamples b)
         \<and> (\<forall>x. - 32768 \<le> pcm16 x \<and> pcm16 x \<le> 32767)"
proof -
  define r where "r = wavSamples b"
  have "audioBufferToWav b = Inr (wavContract b)"
    using assms
    by (simp add: audioBufferToWav_def Let_def wav_result wavContract_def r_def[symmetric]
        writeString_shift setUint32_shift setUint16_shift writeSamples_shift
        writeString_fresh setUint32_fresh setUint16_fresh writeSamples_fresh
        del: writeString.simps)
  moreover have "length (wavContract b) = 44 + 2 * length (wavSamples b)"
    by (simp add: wavContract_def length_concat comp_def sum_list_triv)
  ultimately show ?thesis using pcm16_range by blast
qed

lemma demoStereo_samples: "wavSamples demoStereo = [1 / 2, - 1 / 2, 2, - 3]"
  by (simp add: wavSamples_def zipLR_def demoStereo_def upt_rec numeral_2_eq_2)

lemma demoStereo_pcm16:
  "pcm16 (1 / 2) = 16383" "pcm16 (- (1 / 2)) = - 16384" "pcm16 2 = 32767" "pcm16 (- 3) = - 32768"
  by (simp_all add: pcm16_def trunc_def Let_def)

lemma demoStereo_contract:
  "wavContract demoStereo
     = [82, 73, 70, 70, 44, 0, 0, 0, 87, 65, 86, 69,
        102, 109, 116, 32, 16, 0, 0, 0, 1, 0, 2, 0,
        128, 187, 0, 0, 0, 238, 2, 0, 4, 0, 16, 0,
        100, 97, 116, 97, 8, 0, 0, 0,
        255, 63, 0, 192, 255, 127, 0, 128]"
  by (simp add: wavContract_def demoStereo_samples demoStereo_pcm16 ascii_def u32le_def u16le_def)
    (simp add: demoStereo_def)

theorem wav_bit_exact_witness:
  "numberOfChannels demoStereo \<noteq> 0
   \<and> audioBufferToWav demoStereo
       = Inr [82, 73, 70, 70, 44, 0, 0, 0, 87, 65, 86, 69,
              102, 109, 116, 32, 16, 0, 0, 0, 1, 0, 2, 0,
              128, 187, 0, 0, 0, 238, 2, 0, 4, 0, 16, 0,
              100, 97, 116, 97, 8, 0, 0, 0,
              255, 63, 0, 192, 255, 127, 0, 128]"
  using wav_bit_exact[of demoStereo] demoStereo_contract
  by (simp add: demoStereo_def)

subsection \<open>C9: switching drift off\<close>

lemma out_edges_disconnect_empty:
  "out_edges n s = [] \<Longrightarrow> out_edges n (disconnect m s) = []"
  by (cases "m = n") simp_all

lemma run_timer_detached:
  assumes "drift_detached i l g s"
  shows "drift_detached i l g (run_timer x s)"
proof (cases x)
  case (StopSource k)
  with assms show ?thesis by (simp add: drift_detached_def fieldOf_def run_timer.simps)
next
  case (DriftTeardown j)
  from assms have r: "fieldOf driftPart s i = Some (None, None)" "Osc l \<in> set (stopped s)"
    and o: "out_edges (Osc l) s = []" "out_edges (GainN g) s = []"
    by (simp_all add: drift_detached_def)
  show ?thesis
  proof (cases "tracks s j")
    case None
    with assms DriftTeardown show ?thesis by (simp add: run_timer.simps)
  next
    case (Some m)
    show ?thesis
    proof (cases "driftLfo m")
      case None
      with assms DriftTeardown Some show ?thesis by (simp add: run_timer.simps)
    next
      case lfo: (Some l')
      with r(1) Some have ji: "j \<noteq> i" by (auto simp add: fieldOf_def driftPart_def)
      have e: "out_edges (Osc l) (disconnect a (disconnect b (stop c s))) = []"
        "out_edges (GainN g) (disconnect a (disconnect b (stop c s))) = []"
        "out_edges (Osc l) (disconnect b (stop c s)) = []"
        "out_edges (GainN g) (disconnect b (stop c s)) = []" for a b c
        using o by (simp_all add: out_edges_disconnect_empty)
      show ?thesis
        using DriftTeardown Some lfo ji r
        by (cases "driftGain m")
          (simp_all add: drift_detached_def Let_def fieldOf_def e run_timer.simps)
    qed
  qed
qed

lemma run_timer_teardown:
  assumes "drift_attached i l g s"
  shows "drift_detached i l g (run_timer (DriftTeardown i) s)"
proof -
  from assms obtain n where n: "tracks s i = Some n" "driftLfo n = Some l" "driftGain n = Some g"
    by (auto simp add: drift_attached_def fieldOf_def driftPart_def)
  have "out_edges (Osc l) (disconnect (GainN g) (disconnect (Osc l) (stop (Osc l) s))) = []"
    by (rule out_edges_disconnect_empty) simp
  with n show ?thesis
    by (simp add: drift_detached_def Let_def fieldOf_def driftPart_def run_timer.simps)
qed

lemma run_timer_attached:
  assumes "drift_attached i l g s" "x \<noteq> DriftTeardown i"
  shows "drift_attached i l g (run_timer x s)"
  using assms
  by (cases x) (auto simp add: drift_attached_def fieldOf_def run_timer_tracks split: option.splits)

lemma fold_run_timer_detached:
  "drift_detached i l g s \<Longrightarrow> drift_detached i l g (fold (\<lambda>x. run_timer (snd x)) xs s)"
  by (induction xs arbitrary: s) (simp_all add: run_timer_detached)

lemma fold_run_timer_teardown:
  fixes xs :: "(real \<times> timer) list"
  assumes "drift_attached i l g s \<or> drift_detached i l g s" "DriftTeardown i \<in> snd ` set xs"
  shows "drift_detached i l g (fold (\<lambda>x. run_timer (snd x)) xs s)"
  using assms
proof (induction xs arbitrary: s)
  case Nil
  then show ?case by simp
next
  case (Cons x xs)
  show ?case
  proof (cases "snd x = DriftTeardown i")
    case True
    from Cons.prems(1) have "drift_detached i l g (run_timer (snd x) s)"
      using run_timer_teardown run_timer_detached True by metis
    then show ?thesis by (simp add: fold_run_timer_detached)
  next
    case False
    with Cons.prems(2) have m: "DriftTeardown i \<in> snd ` set xs" by auto
    from Cons.prems(1) False
    have "drift_attached i l g (run_timer (snd x) s) \<or> drift_detached i l g (run_timer (snd x) s)"
      using run_timer_attached run_timer_detached by metis
    from Cons.IH[OF this m] show ?thesis by simp
  qed
qed

lemma advance_teardown:
  assumes "drift_attached i l g s" "(t, DriftTeardown i) \<in> set (timers s)" "t \<le> currentTime s + dt"
  shows "drift_detached i l g (advance dt s)"
proof -
  define s0 where "s0 = s\<lparr>currentTime := currentTime s + dt,
    timers := filter (\<lambda>x. \<not> fst x \<le> currentTime s + dt) (timers s)\<rparr>"
  have a: "drift_attached i l g s0" using assms(1) by (simp add: drift_attached_def fieldOf_def s0_def)
  from assms(2,3) have "(t, DriftTeardown i) \<in> set (sort_key fst (filter (\<lambda>x. fst x \<le> currentTime s + dt) (timers s)))"
    by simp
  then have "DriftTeardown i \<in> snd ` set (sort_key fst (filter (\<lambda>x. fst x \<le> currentTime s + dt) (timers s)))"
    by force
  from fold_run_timer_teardown[OF disjI1[OF a] this] show ?thesis
    by (simp add: advance_def Let_def s0_def)
qed

lemma exp_minus_one_third: "1 / 3 \<le> exp (- 1 :: real)"
proof -
  have "exp (1 :: real) \<le> 3" by (rule exp_le)
  moreover have "0 < exp (1 :: real)" by simp
  ultimately have "1 / 3 \<le> 1 / exp (1 :: real)" by (simp add: field_simps)
  then show ?thesis by (simp add: exp_minus inverse_eq_divide)
qed

lemma updateTrackDrift_off:
  assumes "tracks s (tid t) = Some n" "driftLfo n = Some l" "driftGain n = Some g" "\<not> driftEnabled t"
  shows "updateTrackDrift t rnd s =
    Inr (setTimeout (DriftTeardown (tid t)) 2100 (setTargetAtTime (GainN g, PGain) 0 (currentTime s) 2 s))"
  using assms by (simp add: updateTrackDrift_def)

text \<open>
  C9, as the code has it. Switching drift off on a track whose generator is in place sends the
  scaling gain towards 0 with \<open>setTargetAtTime\<close> and the time constant 2 s, and sets a callback
  for 2.1 s later. Two seconds after the call the gain is therefore at the fraction
  \<open>exp (- 1)\<close> of the value \<open>v0\<close> it had, more than a third of it, and not at 0. Once 2.1 s
  have passed the callback has run: the oscillator is stopped, nothing is connected from the
  oscillator or from the gain, and both references of the track are null.
\<close>

theorem drift_disable_teardown:
  assumes "tracks s (tid t) = Some n" "driftLfo n = Some l" "driftGain n = Some g"
    "\<not> driftEnabled t" "21 / 10 \<le> dt"
  shows "\<exists>s'. updateTrackDrift t rnd s = Inr s'
     \<and> last (timeline s' (GainN g, PGain)) = SetTargetAtTime 0 (currentTime s) 2
     \<and> (currentTime s + 21 / 10, DriftTeardown (tid t)) \<in> set (timers s')
     \<and> value_under (last (timeline s' (GainN g, PGain))) v0 (currentTime s + 2) = v0 * exp (- 1)
     \<and> \<bar>v0\<bar> / 3 \<le> \<bar>value_under (last (timeline s' (GainN g, PGain))) v0 (currentTime s + 2)\<bar>
     \<and> drift_detached (tid t) l g (advance dt s')"
proof -
  define s' where
    "s' = setTimeout (DriftTeardown (tid t)) 2100 (setTargetAtTime (GainN g, PGain) 0 (currentTime s) 2 s)"
  have run: "updateTrackDrift t rnd s = Inr s'"
    unfolding s'_def by (rule updateTrackDrift_off[OF assms(1-4)])
  have ev: "last (timeline s' (GainN g, PGain)) = SetTargetAtTime 0 (currentTime s) 2"
    by (simp add: s'_def)
  have tm: "(currentTime s + 21 / 10, DriftTeardown (tid t)) \<in> set (timers s')"
    by (simp add: s'_def)
  have val: "value_under (SetTargetAtTime 0 (currentTime s) 2) v0 (currentTime s + 2) = v0 * exp (- 1)"
    by simp
  have "\<bar>v0\<bar> * (1 / 3) \<le> \<bar>v0\<bar> * exp (- 1)"
    by (rule mult_left_mono[OF exp_minus_one_third]) simp
  then have third: "\<bar>v0\<bar> / 3 \<le> \<bar>v0 * exp (- 1)\<bar>" by (simp add: abs_mult)
  have att: "drift_attached (tid t) l g s'"
    using assms(1-3) by (simp add: drift_attached_def fieldOf_def driftPart_def s'_def)
  have "currentTime s' = currentTime s" by (simp add: s'_def)
  with assms(5) have "currentTime s + 21 / 10 \<le> currentTime s' + dt" by simp
  from advance_teardown[OF att tm this] have det: "drift_detached (tid t) l g (advance dt s')" .
  show ?thesis
    by (rule exI[of _ s']) (simp only: run ev tm val third det simp_thms)
qed

lemma driftEngine_run:
  "updateTrackDrift ((createDefaultTrack 0)\<lparr>driftEnabled := True\<rparr>) (1 / 2) demoEngine = Inr driftEngine"
  using updateTrackDrift_ok[of demoEngine "(createDefaultTrack 0)\<lparr>driftEnabled := True\<rparr>" emptyNodes "1 / 2"]
  by (auto simp add: driftEngine_def)

lemma driftEngine_tracks:
  "tracks driftEngine 0 = Some (emptyNodes\<lparr>driftLfo := Some 1, driftGain := Some 2\<rparr>)"
  "currentTime driftEngine = 0"
  by (simp_all add: driftEngine_def updateTrackDrift_def Let_def numeral_2_eq_2)

theorem drift_disable_teardown_witness:
  "tracks driftEngine (tid (createDefaultTrack 0)) = Some (emptyNodes\<lparr>driftLfo := Some 1, driftGain := Some 2\<rparr>)
   \<and> driftLfo (emptyNodes\<lparr>driftLfo := Some 1, driftGain := Some 2\<rparr>) = Some 1
   \<and> driftGain (emptyNodes\<lparr>driftLfo := Some 1, driftGain := Some 2\<rparr>) = Some 2
   \<and> \<not> driftEnabled (createDefaultTrack 0)
   \<and> (\<exists>s'. updateTrackDrift (createDefaultTrack 0) 0 driftEngine = Inr s'
        \<and> last (timeline s' (GainN 2, PGain)) = SetTargetAtTime 0 0 2
        \<and> (21 / 10, DriftTeardown 0) \<in> set (timers s')
        \<and> value_under (last (timeline s' (GainN 2, PGain))) (3 / 10) 2 = 3 / 10 * exp (- 1)
        \<and> 1 / 10 \<le> \<bar>value_under (last (timeline s' (GainN 2, PGain))) (3 / 10) 2\<bar>
        \<and> drift_detached 0 1 2 (advance (21 / 10) s'))"
  using drift_disable_teardown[of driftEngine "createDefaultTrack 0"
      "emptyNodes\<lparr>driftLfo := Some 1, driftGain := Some 2\<rparr>" 1 2 "21 / 10" 0 "3 / 10"]
  by (simp add: driftEngine_tracks)

text \<open>
  Drift on track 0 of the demo engine, its gain at 0.3, is switched off at time 0: at time 2
  the gain is not at 0.
\<close>

theorem drift_fade_incomplete:
  "\<not> driftEnabled (createDefaultTrack 0)
   \<and> updateTrackDrift (createDefaultTrack 0) 0 driftEngine
       = Inr (setTimeout (DriftTeardown 0) 2100 (setTargetAtTime (GainN 2, PGain) 0 0 2 driftEngine))
   \<and> value_under
         (last (timeline
            (setTimeout (DriftTeardown 0) 2100 (setTargetAtTime (GainN 2, PGain) 0 0 2 driftEngine))
            (GainN 2, PGain)))
         (3 / 10) (currentTime driftEngine + 2) \<noteq> 0"
proof -
  have "updateTrackDrift (createDefaultTrack 0) 0 driftEngine =
    Inr (setTimeout (DriftTeardown 0) 2100 (setTargetAtTime (GainN 2, PGain) 0 0 2 driftEngine))"
    using updateTrackDrift_off[of driftEngine "createDefaultTrack 0"
        "emptyNodes\<lparr>driftLfo := Some 1, driftGain := Some 2\<rparr>" 1 2 0]
    by (simp add: driftEngine_tracks)
  then show ?thesis by (simp add: driftEngine_tracks)
qed

subsection \<open>C4: the crossfade bridge\<close>

subsection \<open>C4: the crossfade bridge\<close>



lemma node_lt_simps [simp]:
  "node_lt b (Osc k) = (k < b)" "node_lt b (GainN k) = (k < b)" "node_lt b (Chain i r)"
  "node_lt b (Source k)" "node_lt b MasterGain" "node_lt b ReverbConvolver"
  by (simp_all add: node_lt_def)

lemma closed_dest_simps [simp]:
  "closed_dest b (ToParam (Chain i r, pn)) = (r = FadeGain \<and> pn = PGain)"
  "closed_dest b (ToParam (Source k, pn)) = False"
  "closed_dest b (ToParam (GainN k, pn)) = True"
  "closed_dest b (ToNode (GainN k)) = (k < b)"
  "closed_dest b (ToNode (Chain i r)) = False"
  "closed_dest b (ToNode MasterGain) = False"
  "closed_dest b (ToNode ReverbConvolver) = False"
  by (auto simp add: closed_dest_def)

lemma calm0_fade:
  "calm0 s s' \<Longrightarrow> tracks s j = Some n \<Longrightarrow> fieldOf fadePart s' j = fieldOf fadePart s j"
  "calm0 s s' \<Longrightarrow> tracks s j = None \<Longrightarrow> tracks s' j = None \<or> fieldOf fadePart s' j = Some (None, None)"
  unfolding calm0_def by blast+

lemma live_calm0: "calm0 s s' \<Longrightarrow> live s' i ob g = live s i ob g"
proof -
  assume c: "calm0 s s'"
  show ?thesis
  proof (cases "tracks s i")
    case None
    with c have "tracks s' i = None \<or> fieldOf fadePart s' i = Some (None, None)"
      by (rule calm0_fade(2))
    with None show ?thesis by (auto simp add: live_def fieldOf_def)
  next
    case (Some n)
    with c have "fieldOf fadePart s' i = fieldOf fadePart s i" by (rule calm0_fade(1))
    then show ?thesis by (simp add: live_def)
  qed
qed

lemma prot_calm0: "calm0 s s' \<Longrightarrow> prot s' = prot s"
  by (simp add: prot_def live_calm0)

lemma live_tracks: "live s i ob g \<Longrightarrow> \<exists>n. tracks s i = Some n \<and> fadeOsc n = Some ob \<and> fadeGainOsc n = Some g"
  by (auto simp add: live_def fieldOf_def fadePart_def)




lemma assigned_cong: "timeline s' p = timeline s p \<Longrightarrow> assigned p s' = assigned p s"
  by (simp add: assigned_def)









lemma prot_dyn: "n \<in> prot s \<Longrightarrow> (\<exists>k. n = Osc k) \<or> (\<exists>k. n = GainN k)"
  by (auto simp add: prot_def)

lemma prot_simps [simp]:
  "Chain i r \<notin> prot s" "Source k \<notin> prot s" "MasterGain \<notin> prot s"
  by (auto simp add: prot_def)

































lemma kill_fields_upd [simp]:
  "kill_fields (n\<lparr>source := x\<rparr>) = kill_fields n" "kill_fields (n\<lparr>fadeOsc := y\<rparr>) = kill_fields n"
  "kill_fields (n\<lparr>fadeGainOsc := y\<rparr>) = kill_fields n" "kill_fields emptyNodes = {}"
  by (simp_all add: kill_fields_def emptyNodes_def)











lemma jsrem_even: "jsrem i 2 = 0 \<longleftrightarrow> even i"
  by (auto simp add: jsrem_def sgn_if; presburger)



lemma assigned_snoc [simp]:
  "timeline s p = es @ [Assign v \<tau>] \<Longrightarrow> assigned p s = Some v"
  by (simp add: assigned_def)

lemma node_out_osc: "node_out f x v0 t s (Osc k) = node_out 0 x v0 t s (Osc k)"
  by (cases f) simp_all







text \<open>Taking a bridge down, as unlinking and \<open>reset\<close> do.\<close>

lemma xf_inv0_unbridge:
  assumes inv: "xf_inv0 s" and n: "tracks s i = Some n"
    and nx: "nextNode s' = nextNode s"
    and sub: "set (edges s') \<subseteq> set (edges s)"
    and keep: "\<And>m d. (m, d) \<in> set (edges s) \<Longrightarrow>
        (\<forall>ob g. fadePart n = (Some ob, Some g) \<longrightarrow> m \<noteq> Osc ob \<and> m \<noteq> GainN g) \<Longrightarrow>
        (m, d) \<in> set (edges s')"
    and gone: "\<And>ob d. fadeOsc n = Some ob \<Longrightarrow> (Osc ob, d) \<notin> set (edges s')"
    and st: "set (started s) \<subseteq> set (started s')"
    and sp: "\<And>m. m \<in> set (stopped s') \<Longrightarrow> m \<in> set (stopped s) \<or> (\<exists>ob. fadeOsc n = Some ob \<and> m = Osc ob)"
    and tl: "\<And>k. timeline s' (GainN k, PGain) = timeline s (GainN k, PGain)"
    and tr: "tracks s' = (tracks s)(i \<mapsto> n')" and fo: "fadeOsc n' = None"
    and kf: "kill_fields n' \<subseteq> kill_fields n"
    and ti: "trackIds s' = trackIds s"
  shows "xf_inv0 s'" and "\<And>j ob g. live s' j ob g \<longleftrightarrow> j \<noteq> i \<and> live s j ob g"
proof -
  from inv have fr: "xf_fresh s" and ap: "xf_apart s" and fd: "xf_feeders s" by (simp_all add: xf_inv0_def)
  have ok: "bridge_ok s j ob' g'" if "live s j ob' g'" for j ob' g'
    using inv that by (simp add: xf_inv0_def)
  show live': "live s' j ob g \<longleftrightarrow> j \<noteq> i \<and> live s j ob g" for j ob g
    using fo by (auto simp add: live_def fieldOf_def fadePart_def tr)
  have here: "live s i ob g" if "fadeOsc n = Some ob" "fadeGainOsc n = Some g" for ob g
    using that n by (simp add: live_def fieldOf_def fadePart_def)
  have hasg: "\<exists>g. fadeGainOsc n = Some g" if "fadeOsc n = Some ob" for ob
    using fr n that unfolding xf_fresh_def by fastforce
  have dom: "tracks s' j \<noteq> None \<longleftrightarrow> tracks s j \<noteq> None" for j
    using n by (simp add: tr)
  have kf': "\<exists>n0. tracks s j = Some n0 \<and> kill_fields nj \<subseteq> kill_fields n0" if "tracks s' j = Some nj" for j nj
    using that n kf by (cases "j = i") (auto simp add: tr)
  have fresh': "xf_fresh s'"
    unfolding xf_fresh_def nx
  proof (intro conjI allI impI)
    fix m d assume "(m, d) \<in> set (edges s')"
    with sub have "(m, d) \<in> set (edges s)" by blast
    with fr show "node_lt (nextNode s) m" "node_lt (nextNode s) (dest_node d)"
      unfolding xf_fresh_def by blast+
  next
    fix j nj k assume "tracks s' j = Some nj" "k \<in> kill_fields nj"
    with kf'[of j nj] obtain n0 where "tracks s j = Some n0" "k \<in> kill_fields n0" by blast
    with fr show "k < nextNode s" unfolding xf_fresh_def by blast
  next
    fix m k p show "(m, ToParam (GainN k, p)) \<notin> set (edges s')"
      using fr sub unfolding xf_fresh_def by blast
  next
    fix j assume "tracks s' j \<noteq> None"
    with dom[of j] fr show "j \<in> set (trackIds s')" unfolding xf_fresh_def ti by blast
  next
    fix j nj assume a: "tracks s' j = Some nj" "fadeOsc nj \<noteq> None"
    with fo have "j \<noteq> i" by (auto simp add: tr)
    with a have "tracks s j = Some nj" by (simp add: tr)
    with a(2) fr show "fadeGainOsc nj \<noteq> None" unfolding xf_fresh_def by blast
  next
    fix m assume "m \<in> set (stopped s')"
    from sp[OF this] show "node_lt (nextNode s) m"
    proof (elim disjE exE conjE)
      assume "m \<in> set (stopped s)"
      with fr show ?thesis unfolding xf_fresh_def by blast
    next
      fix ob assume o: "fadeOsc n = Some ob" and m: "m = Osc ob"
      from hasg[OF o] obtain g where "fadeGainOsc n = Some g" by blast
      from ok[OF here[OF o this]] m show ?thesis by (simp add: bridge_ok_def)
    qed
  qed
  have other: "m \<noteq> Osc ob \<and> m \<noteq> GainN g"
    if lj: "live s j ob' g'" and ji: "j \<noteq> i" and m: "m = Osc ob' \<or> m = GainN g' \<or> m = GainN (Suc g')"
      and fp: "fadePart n = (Some ob, Some g)" for j ob' g' m ob g
  proof -
    from fp have "live s i ob g" using here by (simp add: fadePart_def)
    with ap lj ji have "ob' \<noteq> ob \<and> g' \<noteq> g \<and> g' \<noteq> Suc g \<and> Suc g' \<noteq> g"
      unfolding xf_apart_def by blast
    with m show ?thesis by auto
  qed
  have bridges': "bridge_ok s' j ob' g'" if l': "live s' j ob' g'" for j ob' g'
  proof -
    from l' have ji: "j \<noteq> i" and lj: "live s j ob' g'" by (simp_all add: live')
    note o = ok[OF lj]
    have k1: "(Osc ob', d) \<in> set (edges s')" if "(Osc ob', d) \<in> set (edges s)" for d
      using keep[OF that] other[OF lj ji, of "Osc ob'"] by blast
    have k2: "(GainN g', d) \<in> set (edges s')" if "(GainN g', d) \<in> set (edges s)" for d
      using keep[OF that] other[OF lj ji, of "GainN g'"] by blast
    have k3: "(GainN (Suc g'), d) \<in> set (edges s')" if "(GainN (Suc g'), d) \<in> set (edges s)" for d
      using keep[OF that] other[OF lj ji, of "GainN (Suc g')"] by blast
    have i1: "(m, ToNode (GainN g')) \<in> set (edges s') \<longleftrightarrow> m = Osc ob'" for m
      using o sub k1[of "ToNode (GainN g')"] unfolding bridge_ok_def by blast
    have i2: "(m, ToNode (GainN (Suc g'))) \<in> set (edges s') \<longleftrightarrow> m = GainN g'" for m
      using o sub k2[of "ToNode (GainN (Suc g'))"] unfolding bridge_ok_def by blast
    from o have e1: "(GainN g', ToParam (Chain j FadeGain, PGain)) \<in> set (edges s')"
      "(GainN (Suc g'), ToParam (Chain (j + 1) FadeGain, PGain)) \<in> set (edges s')"
      using k2 k3 by (simp_all add: bridge_ok_def)
    from o st have s1: "Osc ob' \<in> set (started s')" unfolding bridge_ok_def by blast
    have s2: "Osc ob' \<notin> set (stopped s')"
    proof
      assume "Osc ob' \<in> set (stopped s')"
      from sp[OF this] show False
      proof (elim disjE exE conjE)
        assume "Osc ob' \<in> set (stopped s)" with o show False by (simp add: bridge_ok_def)
      next
        fix ob assume ob: "fadeOsc n = Some ob" and e: "Osc ob' = Osc ob"
        from hasg[OF ob] obtain g where "fadeGainOsc n = Some g" by blast
        with ob have "fadePart n = (Some ob, Some g)" by (simp add: fadePart_def)
        from other[OF lj ji _ this, of "Osc ob'"] e show False by simp
      qed
    qed
    from o have as: "assigned (GainN g', PGain) s' = Some (1 / 2)"
      "assigned (GainN (Suc g'), PGain) s' = Some (- 1)"
      by (simp_all add: bridge_ok_def assigned_cong[OF tl])
    from o have t2: "tracks s' (j + 1) \<noteq> None" using dom[of "j + 1"] by (simp add: bridge_ok_def)
    from o have l2: "ob' < nextNode s'" "Suc g' < nextNode s'" "jsrem j 2 = 0"
      by (simp_all add: bridge_ok_def nx)
    show ?thesis
      unfolding bridge_ok_def using l2 t2 i1 i2 s1 s2 as e1 by blast
  qed
  have apart': "xf_apart s'"
    unfolding xf_apart_def
  proof (intro conjI allI impI)
    fix j ob' g' j2 nj k
    assume lv: "live s' j ob' g'" and t: "tracks s' j2 = Some nj" and k: "k \<in> kill_fields nj"
    from kf'[OF t] k obtain n0 where "tracks s j2 = Some n0" "k \<in> kill_fields n0" by blast
    with ap lv have "k \<noteq> ob' \<and> k \<noteq> g' \<and> k \<noteq> Suc g'" unfolding xf_apart_def live' by blast
    then show "k \<noteq> ob'" "k \<noteq> g'" "k \<noteq> Suc g'" by simp_all
  next
    fix j ob1 g1 j2 ob2 g2
    assume "live s' j ob1 g1" "live s' j2 ob2 g2" "j \<noteq> j2"
    with ap have "ob1 \<noteq> ob2 \<and> g1 \<noteq> g2 \<and> g1 \<noteq> Suc g2 \<and> Suc g1 \<noteq> g2"
      unfolding xf_apart_def live' by blast
    then show "ob1 \<noteq> ob2" "g1 \<noteq> g2" "g1 \<noteq> Suc g2" "Suc g1 \<noteq> g2" by simp_all
  qed
  have sil: "silent s' m" if "silent s m" for m
    using that sub unfolding silent_def by blast
  have dead: "silent s' (GainN g) \<and> silent s' (GainN (Suc g))" if li: "live s i ob g" for ob g
  proof -
    note o = ok[OF li]
    from live_tracks[OF li] n have fo: "fadeOsc n = Some ob" by simp
    have a: "(m, ToNode (GainN g)) \<notin> set (edges s')" for m
    proof
      assume e: "(m, ToNode (GainN g)) \<in> set (edges s')"
      with sub o have "m = Osc ob" unfolding bridge_ok_def by blast
      with e gone[OF fo] show False by blast
    qed
    have b: "m = GainN g" if "(m, ToNode (GainN (Suc g))) \<in> set (edges s')" for m
      using that sub o unfolding bridge_ok_def by blast
    from a b show ?thesis unfolding silent_def by blast
  qed
  have feeders': "xf_feeders s'"
    unfolding xf_feeders_def
  proof (intro allI impI)
    fix j m assume e: "(m, ToParam (Chain j FadeGain, PGain)) \<in> set (edges s')"
    with sub have "(m, ToParam (Chain j FadeGain, PGain)) \<in> set (edges s)" by blast
    with fd have "silent s m \<or> (\<exists>ob' g'. live s j ob' g' \<and> m = GainN g')
        \<or> (\<exists>ob' g'. live s (j - 1) ob' g' \<and> m = GainN (Suc g'))" unfolding xf_feeders_def by blast
    then show "silent s' m \<or> (\<exists>ob' g'. live s' j ob' g' \<and> m = GainN g')
        \<or> (\<exists>ob' g'. live s' (j - 1) ob' g' \<and> m = GainN (Suc g'))"
    proof (elim disjE exE conjE)
      assume "silent s m"
      from sil[OF this] show ?thesis by blast
    next
      fix ob' g' assume lv: "live s j ob' g'" and m: "m = GainN g'"
      show ?thesis
      proof (cases "j = i")
        case True
        with dead[of ob' g'] lv m show ?thesis by blast
      next
        case False
        with lv m show ?thesis by (auto simp add: live')
      qed
    next
      fix ob' g' assume lv: "live s (j - 1) ob' g'" and m: "m = GainN (Suc g')"
      show ?thesis
      proof (cases "j - 1 = i")
        case True
        with dead[of ob' g'] lv m show ?thesis by blast
      next
        case False
        with lv m have "live s' (j - 1) ob' g'" by (simp add: live')
        with m show ?thesis by blast
      qed
    qed
  qed
  from fresh' bridges' apart' feeders' show "xf_inv0 s'" by (simp add: xf_inv0_def)
qed

lemma unlink_facts:
  assumes n: "tracks s (tid t) = Some nA" and b: "\<not> (linkNext t \<and> tracks s (tid t + 1) \<noteq> None)"
    and f: "fadeOsc nA = Some ob"
  defines "s' \<equiv> updateCrossfade t s"
  shows "nextNode s' = nextNode s"
    and "\<And>m d. (m, d) \<in> set (edges s') \<longleftrightarrow>
           (m, d) \<in> set (edges s) \<and> m \<noteq> Osc ob \<and> (\<forall>g. fadeGainOsc nA = Some g \<longrightarrow> m \<noteq> GainN g)"
    and "started s' = started s"
    and "set (stopped s') = insert (Osc ob) (set (stopped s))"
    and "tracks s' = (tracks s)(tid t \<mapsto> nA\<lparr>fadeOsc := None, fadeGainOsc := None\<rparr>)"
    and "trackIds s' = trackIds s"
    and "\<And>k. timeline s' (GainN k, PGain) = timeline s (GainN k, PGain)"
    and "\<And>j. j \<noteq> tid t \<Longrightarrow> j \<noteq> tid t + 1 \<Longrightarrow>
          timeline s' (Chain j FadeGain, PGain) = timeline s (Chain j FadeGain, PGain)"
proof -
  from n b f have e: "s' = (let s1 = stop (Osc ob) s;
                         s2 = disconnect (Osc ob) s1;
                         s3 = (case fadeGainOsc nA of
                                 None \<Rightarrow> s2
                               | Some g \<Rightarrow> disconnect (GainN g) s2);
                         s4 = s3\<lparr>tracks := (tracks s3)(tid t \<mapsto>
                                nA\<lparr>fadeOsc := None, fadeGainOsc := None\<rparr>)\<rparr>;
                         s5 = setTargetAtTime (Chain (tid t) FadeGain, PGain) 1 (currentTime s) 0.1 s4
                     in if tracks s5 (tid t + 1) \<noteq> None
                        then setTargetAtTime (Chain (tid t + 1) FadeGain, PGain) 1 (currentTime s) 0.1 s5
                        else s5)"
    unfolding s'_def updateCrossfade_def by (auto simp add: Let_def)
  show "nextNode s' = nextNode s" unfolding e by (simp add: Let_def split: option.splits)
  show "(m, d) \<in> set (edges s') \<longleftrightarrow>
           (m, d) \<in> set (edges s) \<and> m \<noteq> Osc ob \<and> (\<forall>g. fadeGainOsc nA = Some g \<longrightarrow> m \<noteq> GainN g)" for m d
    unfolding e by (cases "fadeGainOsc nA") (auto simp add: Let_def)
  show "started s' = started s" unfolding e by (simp add: Let_def split: option.splits)
  show "set (stopped s') = insert (Osc ob) (set (stopped s))"
    unfolding e by (simp add: Let_def split: option.splits)
  show "tracks s' = (tracks s)(tid t \<mapsto> nA\<lparr>fadeOsc := None, fadeGainOsc := None\<rparr>)"
    unfolding e by (simp add: Let_def split: option.splits)
  show "trackIds s' = trackIds s" unfolding e by (simp add: Let_def split: option.splits)
  show "timeline s' (GainN k, PGain) = timeline s (GainN k, PGain)" for k
    unfolding e by (simp add: Let_def split: option.splits)
  show "timeline s' (Chain j FadeGain, PGain) = timeline s (Chain j FadeGain, PGain)"
    if "j \<noteq> tid t" "j \<noteq> tid t + 1" for j
    using that unfolding e by (simp add: Let_def split: option.splits)
qed

lemma xf_inv_unlink:
  assumes inv: "xf_inv s" and n: "tracks s (tid t) = Some nA"
    and b: "\<not> (linkNext t \<and> tracks s (tid t + 1) \<noteq> None)"
    and f: "fadeOsc nA = Some ob" and ev: "jsrem (tid t) 2 = 0"
  shows "xf_inv (updateCrossfade t s)"
    and "\<And>j ob' g'. live (updateCrossfade t s) j ob' g' \<longleftrightarrow> j \<noteq> tid t \<and> live s j ob' g'"
proof -
  define s' where "s' = updateCrossfade t s"
  note U = unlink_facts[OF n b f, folded s'_def]
  from inv have i0: "xf_inv0 s" and bi: "xf_biased s" by (simp_all add: xf_inv_def)
  from i0 n f have hg: "fadeGainOsc nA \<noteq> None" unfolding xf_inv0_def xf_fresh_def by fastforce
  have r: "xf_inv0 s'" "\<And>j ob' g'. live s' j ob' g' \<longleftrightarrow> j \<noteq> tid t \<and> live s j ob' g'"
  proof (rule_tac [!] xf_inv0_unbridge[OF i0 n U(1) _ _ _ _ _ U(7) U(5) _ _ U(6)])
    show "set (edges s') \<subseteq> set (edges s)" using U(2) by auto
    then show "set (edges s') \<subseteq> set (edges s)" .
    show "\<And>m d. (m, d) \<in> set (edges s) \<Longrightarrow>
        (\<forall>ob g. fadePart nA = (Some ob, Some g) \<longrightarrow> m \<noteq> Osc ob \<and> m \<noteq> GainN g) \<Longrightarrow>
        (m, d) \<in> set (edges s')" using f hg by (auto simp add: U(2) fadePart_def)
    then show "\<And>m d. (m, d) \<in> set (edges s) \<Longrightarrow>
        (\<forall>ob g. fadePart nA = (Some ob, Some g) \<longrightarrow> m \<noteq> Osc ob \<and> m \<noteq> GainN g) \<Longrightarrow>
        (m, d) \<in> set (edges s')" .
    show "\<And>ob d. fadeOsc nA = Some ob \<Longrightarrow> (Osc ob, d) \<notin> set (edges s')"
      using f by (auto simp add: U(2))
    then show "\<And>ob d. fadeOsc nA = Some ob \<Longrightarrow> (Osc ob, d) \<notin> set (edges s')" .
    show "set (started s) \<subseteq> set (started s')" "set (started s) \<subseteq> set (started s')" by (simp_all add: U(3))
    show "\<And>m. m \<in> set (stopped s') \<Longrightarrow> m \<in> set (stopped s) \<or> (\<exists>ob. fadeOsc nA = Some ob \<and> m = Osc ob)"
      using f unfolding U(4) by auto
    then show "\<And>m. m \<in> set (stopped s') \<Longrightarrow> m \<in> set (stopped s) \<or> (\<exists>ob. fadeOsc nA = Some ob \<and> m = Osc ob)" .
    show "fadeOsc (nA\<lparr>fadeOsc := None, fadeGainOsc := None\<rparr>) = None"
      "fadeOsc (nA\<lparr>fadeOsc := None, fadeGainOsc := None\<rparr>) = None" by simp_all
    show "kill_fields (nA\<lparr>fadeOsc := None, fadeGainOsc := None\<rparr>) \<subseteq> kill_fields nA"
      "kill_fields (nA\<lparr>fadeOsc := None, fadeGainOsc := None\<rparr>) \<subseteq> kill_fields nA" by simp_all
  qed
  have "xf_biased s'"
    unfolding xf_biased_def
  proof (intro allI impI)
    fix j ob' g' assume "live s' j ob' g'"
    then have ji: "j \<noteq> tid t" and lj: "live s j ob' g'" by (simp_all add: r(2))
    from i0 lj have "bridge_ok s j ob' g'" by (simp add: xf_inv0_def)
    then have "even j" by (simp add: bridge_ok_def jsrem_even)
    moreover from ev have "even (tid t)" by (simp add: jsrem_even)
    ultimately have d: "j \<noteq> tid t + 1" "j + 1 \<noteq> tid t" "j + 1 \<noteq> tid t + 1" using ji by presburger+
    from bi lj have a: "assigned (Chain j FadeGain, PGain) s = Some (1 / 2)"
      "assigned (Chain (j + 1) FadeGain, PGain) s = Some (1 / 2)" unfolding xf_biased_def by blast+
    from assigned_cong[OF U(8)[OF ji d(1)]] assigned_cong[OF U(8)[OF d(2,3)]] a
    show "assigned (Chain j FadeGain, PGain) s' = Some (1 / 2)
        \<and> assigned (Chain (j + 1) FadeGain, PGain) s' = Some (1 / 2)" by simp
  qed
  with r(1) show "xf_inv (updateCrossfade t s)" by (simp add: xf_inv_def s'_def)
  show "\<And>j ob' g'. live (updateCrossfade t s) j ob' g' \<longleftrightarrow> j \<noteq> tid t \<and> live s j ob' g'"
    using r(2) by (simp add: s'_def)
qed





lemma updateCrossfade_unlinked:
  assumes inv: "xf_inv s" and ev: "jsrem (tid t) 2 = 0" and l: "\<not> linkNext t"
  shows "\<not> live (updateCrossfade t s) (tid t) ob g"
proof (cases "tracks s (tid t)")
  case None
  then show ?thesis by (simp add: updateCrossfade_def live_def fieldOf_def)
next
  case (Some nA)
  show ?thesis
  proof (cases "fadeOsc nA")
    case None
    with Some l show ?thesis by (simp add: updateCrossfade_def live_def fieldOf_def fadePart_def)
  next
    case (Some ob')
    from l have "\<not> (linkNext t \<and> tracks s (tid t + 1) \<noteq> None)" by simp
    from xf_inv_unlink(2)[OF inv \<open>tracks s (tid t) = Some nA\<close> this Some ev] show ?thesis by simp
  qed
qed

















lemma resetParam_timeline_other [simp]:
  "p \<noteq> q \<Longrightarrow> timeline (resetParam p v s) q = timeline s q"
  by (simp add: resetParam_def)
















end
